theory Spec2Isabelle
  imports Complex_Main "HOL-Library.Log_Nat"
begin

section \<open>JavaScript numbers\<close>

text \<open>
  Every \<open>number\<close> of the TypeScript sources is an IEEE 754 binary64 value. A finite
  value is modelled by the rational it denotes, the three special values by constructors
  of their own. Negative zero is identified with zero: the sources never divide by a
  variable that can be zero and never inspect the sign of a zero.

  \<open>fl\<close> is the rounding that every arithmetic operation of the language applies to
  its exact result: to the nearest value with a 53-bit significand, ties to the even
  significand, gradual underflow below \<open>2 powi (- 1022)\<close>, overflow to an infinity from
  \<open>2 powi 1024\<close> on.
\<close>

datatype number = Fin rat | PInf | NInf | NaN

definition ilog2 :: "rat \<Rightarrow> int" where
  "ilog2 x = (case quotient_of x of (p, q) \<Rightarrow>
     (let a = bitlen p - bitlen q in if 2 powi a \<le> x then a else a - 1))"

definition round_half_even :: "rat \<Rightarrow> int" where
  "round_half_even r =
     (let f = \<lfloor>r\<rfloor>; d = r - of_int f
      in if d < 1 / 2 then f else if 1 / 2 < d then f + 1 else if even f then f else f + 1)"

definition fl_pos :: "rat \<Rightarrow> number" where
  "fl_pos x =
     (let e = max (ilog2 x) (- 1022);
          q = 2 powi (e - 52);
          y = of_int (round_half_even (x / q)) * q
      in if 2 powi 1024 \<le> y then PInf else Fin y)"

fun js_neg :: "number \<Rightarrow> number" where
  "js_neg (Fin x) = Fin (- x)"
| "js_neg PInf = NInf"
| "js_neg NInf = PInf"
| "js_neg NaN = NaN"

definition fl :: "rat \<Rightarrow> number" where
  "fl x = (if x = 0 then Fin 0 else if 0 < x then fl_pos x else js_neg (fl_pos (- x)))"

definition inf_of_sign :: "rat \<Rightarrow> number" where
  "inf_of_sign s = (if s = 0 then NaN else if 0 < s then PInf else NInf)"

fun js_add :: "number \<Rightarrow> number \<Rightarrow> number" where
  "js_add (Fin a) (Fin b) = fl (a + b)"
| "js_add (Fin a) PInf = PInf"
| "js_add (Fin a) NInf = NInf"
| "js_add PInf (Fin b) = PInf"
| "js_add PInf PInf = PInf"
| "js_add PInf NInf = NaN"
| "js_add NInf (Fin b) = NInf"
| "js_add NInf NInf = NInf"
| "js_add NInf PInf = NaN"
| "js_add NaN b = NaN"
| "js_add a NaN = NaN"

definition js_sub :: "number \<Rightarrow> number \<Rightarrow> number" where
  "js_sub a b = js_add a (js_neg b)"

fun js_mul :: "number \<Rightarrow> number \<Rightarrow> number" where
  "js_mul (Fin a) (Fin b) = fl (a * b)"
| "js_mul (Fin a) PInf = inf_of_sign a"
| "js_mul (Fin a) NInf = inf_of_sign (- a)"
| "js_mul PInf (Fin b) = inf_of_sign b"
| "js_mul NInf (Fin b) = inf_of_sign (- b)"
| "js_mul PInf PInf = PInf"
| "js_mul PInf NInf = NInf"
| "js_mul NInf PInf = NInf"
| "js_mul NInf NInf = PInf"
| "js_mul NaN b = NaN"
| "js_mul a NaN = NaN"

fun js_div :: "number \<Rightarrow> number \<Rightarrow> number" where
  "js_div (Fin a) (Fin b) = (if b = 0 then inf_of_sign a else fl (a / b))"
| "js_div (Fin a) PInf = Fin 0"
| "js_div (Fin a) NInf = Fin 0"
| "js_div PInf (Fin b) = (if 0 \<le> b then PInf else NInf)"
| "js_div NInf (Fin b) = (if 0 \<le> b then NInf else PInf)"
| "js_div PInf PInf = NaN"
| "js_div PInf NInf = NaN"
| "js_div NInf PInf = NaN"
| "js_div NInf NInf = NaN"
| "js_div NaN b = NaN"
| "js_div a NaN = NaN"

fun js_lt :: "number \<Rightarrow> number \<Rightarrow> bool" where
  "js_lt (Fin a) (Fin b) = (a < b)"
| "js_lt (Fin a) PInf = True"
| "js_lt NInf (Fin b) = True"
| "js_lt NInf PInf = True"
| "js_lt a b = False"

definition js_gt :: "number \<Rightarrow> number \<Rightarrow> bool" where
  "js_gt a b = js_lt b a"

fun js_le :: "number \<Rightarrow> number \<Rightarrow> bool" where
  "js_le NaN b = False"
| "js_le a NaN = False"
| "js_le a b = (\<not> js_lt b a)"

text \<open>
  \<open>Math.round\<close> returns the integer closest to its argument, the larger one of two
  equally close integers; it is exact (no intermediate sum is rounded).
\<close>

fun Math_round :: "number \<Rightarrow> number" where
  "Math_round (Fin x) = Fin (of_int \<lfloor>x + 1 / 2\<rfloor>)"
| "Math_round a = a"

fun Math_abs :: "number \<Rightarrow> number" where
  "Math_abs (Fin x) = Fin \<bar>x\<bar>"
| "Math_abs PInf = PInf"
| "Math_abs NInf = PInf"
| "Math_abs NaN = NaN"

fun Number_isFinite :: "number \<Rightarrow> bool" where
  "Number_isFinite (Fin x) = True"
| "Number_isFinite a = False"

definition Number_EPSILON :: number where
  "Number_EPSILON = Fin (2 powi (- 52))"

text \<open>A decimal literal of the source denotes the binary64 value nearest to it.\<close>

definition lit :: "rat \<Rightarrow> number" where
  "lit d = fl d"

section \<open>Percentage rounding and the equal split\<close>

text \<open>
  \<^verbatim>\<open>function round2(n) { return Math.round((n + Number.EPSILON) * 100) / 100; }\<close>
  is defined the same way in the settlement page and in the export route.
\<close>

definition round2 :: "number \<Rightarrow> number" where
  "round2 n = js_div (Math_round (js_mul (js_add n Number_EPSILON) (Fin 100))) (Fin 100)"

text \<open>
  \<open>makeEqualSplits\<close> is only called with \<open>members.length\<close>, the length of an array,
  hence with a natural number (below \<open>2 ^ 32\<close>, which binary64 holds exactly).
\<close>

definition makeEqualSplits :: "nat \<Rightarrow> number list" where
  "makeEqualSplits count =
     (if count \<le> 0 then []
      else
        let base = round2 (js_div (Fin 100) (Fin (of_nat count)));
            splits = replicate count base;
            diff = round2 (js_sub (Fin 100) (foldl js_add (Fin 0) splits))
        in splits[count - 1 := round2 (js_add (splits ! (count - 1)) diff)])"

section \<open>Rows of the data store\<close>

text \<open>
  The rows are the TypeScript types of the two sources. A column that may be \<open>null\<close>
  is an \<open>option\<close>. Both sources read \<open>band_members\<close> filtered to active members and
  ordered by creation time, \<open>cuts\<close> filtered to the tour's active cuts.
\<close>

datatype role = Owner | Manager | Member

datatype entry_type = Income | Expense

record BandMember =
  m_id :: string
  m_user_id :: string
  m_member_name :: string
  m_role :: role

record CutRow =
  c_id :: string
  band_member_id :: "string option"
  cut_percent :: "number option"
  percent :: "number option"

record FinanceSettings =
  savings_percent :: "number option"
  manager_percent :: "number option"
  agent_percent :: "number option"

record LedgerRow =
  l_entry_type :: entry_type
  amount_cents :: number

text \<open>
  \<^verbatim>\<open>Number(finance?.manager_percent ?? 0)\<close>: the settings row may be absent and a column of
  it \<open>null\<close>; \<open>Number\<close> leaves a number as it is.
\<close>

definition setting :: "FinanceSettings option \<Rightarrow> (FinanceSettings \<Rightarrow> number option) \<Rightarrow> number" where
  "setting finance field =
     (case finance of None \<Rightarrow> Fin 0
      | Some f \<Rightarrow> (case field f of None \<Rightarrow> Fin 0 | Some v \<Rightarrow> v))"

text \<open>\<^verbatim>\<open>Number(c.cut_percent ?? c.percent ?? 0)\<close>\<close>

definition cut_value :: "CutRow \<Rightarrow> number" where
  "cut_value c =
     (case cut_percent c of Some v \<Rightarrow> v
      | None \<Rightarrow> (case percent c of Some v \<Rightarrow> v | None \<Rightarrow> Fin 0))"

text \<open>
  The two loops over the ledger, the same in both sources:
  \<^verbatim>\<open>if (row.entry_type === "income") income += row.amount_cents;\<close>
  \<^verbatim>\<open>if (row.entry_type === "expense") expense += row.amount_cents;\<close>
\<close>

definition ledger_step :: "number \<times> number \<Rightarrow> LedgerRow \<Rightarrow> number \<times> number" where
  "ledger_step acc row =
     (case acc of (income, expense) \<Rightarrow>
        (if l_entry_type row = Income then js_add income (amount_cents row) else income,
         if l_entry_type row = Expense then js_add expense (amount_cents row) else expense))"

definition ledger_totals :: "LedgerRow list \<Rightarrow> number \<times> number" where
  "ledger_totals entries = foldl ledger_step (Fin 0, Fin 0) entries"

text \<open>\<^verbatim>\<open>equalSplits[index] ?? 0\<close>: an index outside the array reads \<open>undefined\<close>.\<close>

definition split_at :: "number list \<Rightarrow> nat \<Rightarrow> number" where
  "split_at equalSplits index =
     (if index < length equalSplits then equalSplits ! index else Fin 0)"

section \<open>The settlement figures\<close>

record settlement =
  managerFeeCents :: number
  agentFeeCents :: number
  grossFeesCents :: number
  netAfterFeesAndExpensesCents :: number
  savingsAmountCents :: number
  distributableNetCents :: number

text \<open>
  Settlement page, lines 84 to 92: the figures are recomputed at every render from the
  state variables \<open>totalIncomeCents\<close>, \<open>totalExpenseCents\<close>, \<open>savingsPercent\<close>,
  \<open>managerPercent\<close> and \<open>agentPercent\<close>.
\<close>

definition page_settlement :: "number \<Rightarrow> number \<Rightarrow> number \<Rightarrow> number \<Rightarrow> number \<Rightarrow> settlement" where
  "page_settlement totalIncome totalExpense savingsPct managerPct agentPct =
     (let managerFee = Math_round (js_mul totalIncome (js_div managerPct (Fin 100)));
          agentFee = Math_round (js_mul totalIncome (js_div agentPct (Fin 100)));
          grossFees = js_add managerFee agentFee;
          netAfter = js_sub (js_sub totalIncome grossFees) totalExpense;
          savingsAmount =
            (if js_gt netAfter (Fin 0)
             then Math_round (js_mul netAfter (js_div savingsPct (Fin 100)))
             else Fin 0);
          distributableNet = js_sub netAfter savingsAmount
      in \<lparr>managerFeeCents = managerFee, agentFeeCents = agentFee, grossFeesCents = grossFees,
          netAfterFeesAndExpensesCents = netAfter, savingsAmountCents = savingsAmount,
          distributableNetCents = distributableNet\<rparr>)"

text \<open>\<^verbatim>\<open>Math.round(distributableNetCents * (row.cutPercent / 100))\<close>, in both sources.\<close>

definition payoutCents :: "number \<Rightarrow> number \<Rightarrow> number" where
  "payoutCents distributableNet cutPercent =
     Math_round (js_mul distributableNet (js_div cutPercent (Fin 100)))"

section \<open>The settlement page\<close>

record SettlementMemberRow =
  cutId :: "string option"
  bandMemberId :: string
  userId :: string
  memberName :: string
  email :: "string option"
  row_role :: role
  cutPercent :: number

text \<open>
  The state variables of the page that the settlement reads or writes; \<open>loading\<close>,
  \<open>tour\<close> and the two variables of the export button are left out. \<open>tourId\<close> is the
  route parameter.
\<close>

record page_state =
  tourId :: "string option"
  error :: "string option"
  status :: "string option"
  rows :: "SettlementMemberRow list"
  canEdit :: bool
  saving :: bool
  totalIncomeCents :: number
  totalExpenseCents :: number
  savingsPercent :: number
  managerPercent :: number
  agentPercent :: number

definition page_figures :: "page_state \<Rightarrow> settlement" where
  "page_figures s =
     page_settlement (totalIncomeCents s) (totalExpenseCents s)
       (savingsPercent s) (managerPercent s) (agentPercent s)"

text \<open>
  \<^verbatim>\<open>for (const c of cuts) { if (c.band_member_id) cutByMemberId[c.band_member_id] = c; }\<close>
  A \<open>null\<close> or empty member id is falsy and the cut is skipped; a later cut of the same
  member replaces an earlier one. Member ids are keys of the data store (UUIDs), never
  the name of a property that every JavaScript object inherits.
\<close>

definition page_cutByMemberId :: "CutRow list \<Rightarrow> (string \<rightharpoonup> CutRow)" where
  "page_cutByMemberId cuts =
     foldl (\<lambda>m c. case band_member_id c of None \<Rightarrow> m
                   | Some k \<Rightarrow> if k = [] then m else m(k \<mapsto> c))
       Map.empty cuts"

definition page_row :: "(string \<rightharpoonup> CutRow) \<Rightarrow> (string \<rightharpoonup> string) \<Rightarrow> number list \<Rightarrow> nat \<times> BandMember \<Rightarrow> SettlementMemberRow" where
  "page_row cutByMemberId emailByUserId equalSplits im =
     (case im of (index, member) \<Rightarrow>
        \<lparr>cutId = (case cutByMemberId (m_id member) of None \<Rightarrow> None | Some c \<Rightarrow> Some (c_id c)),
         bandMemberId = m_id member,
         userId = m_user_id member,
         memberName = m_member_name member,
         email = emailByUserId (m_user_id member),
         row_role = m_role member,
         cutPercent =
           (case cutByMemberId (m_id member) of
              Some c \<Rightarrow> cut_value c
            | None \<Rightarrow> split_at equalSplits index)\<rparr>)"

definition nextRows :: "BandMember list \<Rightarrow> (string \<rightharpoonup> string) \<Rightarrow> CutRow list \<Rightarrow> SettlementMemberRow list" where
  "nextRows members emailByUserId cuts =
     map (page_row (page_cutByMemberId cuts) emailByUserId (makeEqualSplits (length members)))
       (enumerate 0 members)"

text \<open>
  \<open>loadPage\<close> after the user and the tour have been read, in a run where every query
  of the data store succeeds: the part that turns the rows of the data store into the
  state of the page. With no active member the page returns before it reads the ledger;
  a user who is not an active member is refused.
\<close>

definition loadPage :: "string \<Rightarrow> FinanceSettings option \<Rightarrow> BandMember list \<Rightarrow> (string \<rightharpoonup> string) \<Rightarrow> LedgerRow list \<Rightarrow> CutRow list \<Rightarrow> page_state \<Rightarrow> page_state" where
  "loadPage user finance members emailByUserId entries cuts s0 =
     (let s1 = s0\<lparr>error := None, status := None,
                  savingsPercent := setting finance savings_percent,
                  managerPercent := setting finance manager_percent,
                  agentPercent := setting finance agent_percent\<rparr>
      in if length members = 0 then s1\<lparr>rows := [], canEdit := False\<rparr>
         else
           (case find (\<lambda>m. m_user_id m = user) members of
              None \<Rightarrow> s1\<lparr>error := Some ''You do not have access to this tour.''\<rparr>
            | Some me \<Rightarrow>
                s1\<lparr>canEdit := (m_role me = Owner \<or> m_role me = Manager),
                   totalIncomeCents := fst (ledger_totals entries),
                   totalExpenseCents := snd (ledger_totals entries),
                   rows := nextRows members emailByUserId cuts\<rparr>))"

text \<open>The payout column of the cuts table, one amount for each displayed row.\<close>

definition page_payouts :: "page_state \<Rightarrow> number list" where
  "page_payouts s =
     map (\<lambda>row. payoutCents (distributableNetCents (page_figures s)) (cutPercent row)) (rows s)"

text \<open>
  \<^verbatim>\<open>totalCuts = round2(rows.reduce((sum, row) => sum + (Number.isFinite(row.cutPercent) ? row.cutPercent : 0), 0))\<close>
  \<^verbatim>\<open>cutsValid = Math.abs(totalCuts - 100) <= 0.01\<close>
\<close>

definition totalCuts :: "SettlementMemberRow list \<Rightarrow> number" where
  "totalCuts rs =
     round2 (foldl (\<lambda>sum row. js_add sum
                      (if Number_isFinite (cutPercent row) then cutPercent row else Fin 0))
               (Fin 0) rs)"

definition cutsValid :: "SettlementMemberRow list \<Rightarrow> bool" where
  "cutsValid rs = js_le (Math_abs (js_sub (totalCuts rs) (Fin 100))) (lit (1 / 100))"





text \<open>
  The rest of \<open>saveCuts\<close>, once the data store has answered: either an error message or
  the saved rows (\<open>None\<close> for \<open>res.data\<close> being \<open>null\<close>).
\<close>

definition saveCuts_done :: "(string + CutRow list option) \<Rightarrow> page_state \<Rightarrow> page_state" where
  "saveCuts_done res s =
     (case res of
        Inl message \<Rightarrow> s\<lparr>saving := False, status := Some (''Error saving cuts: '' @ message)\<rparr>
      | Inr data \<Rightarrow>
          (let saved = (case data of None \<Rightarrow> [] | Some d \<Rightarrow> d);
               idByMember = page_cutByMemberId saved
           in s\<lparr>rows := map (\<lambda>r. r\<lparr>cutId := (case idByMember (bandMemberId r) of
                                                 Some c \<Rightarrow> Some (c_id c) | None \<Rightarrow> cutId r)\<rparr>) (rows s),
                saving := False, status := Some ''Cuts saved.''\<rparr>))"

text \<open>
  The cut field of a row in edit mode:
  \<^verbatim>\<open>const next = Number(e.target.value); ... cutPercent: Number.isFinite(next) ? next : 0\<close>
\<close>

definition editCut :: "string \<Rightarrow> number \<Rightarrow> page_state \<Rightarrow> page_state" where
  "editCut memberId next s =
     s\<lparr>rows := map (\<lambda>r. if bandMemberId r = memberId
                         then r\<lparr>cutPercent := (if Number_isFinite next then next else Fin 0)\<rparr>
                         else r) (rows s)\<rparr>"

text \<open>The state of the page before anything is loaded: the initial values of its state variables.\<close>

definition initial_state :: "string option \<Rightarrow> page_state" where
  "initial_state tid =
     \<lparr>tourId = tid, error = None, status = None, rows = [], canEdit = False, saving = False,
      totalIncomeCents = Fin 0, totalExpenseCents = Fin 0, savingsPercent = Fin 0,
      managerPercent = Fin 0, agentPercent = Fin 0\<rparr>"

section \<open>The spreadsheet export\<close>

text \<open>
  Export route, lines 235 to 252 and 387 to 398. The route computes the figures from the
  totals of its own ledger loop and the settings row, then one row of the
  \<open>Settlement\<close> sheet for each member.
\<close>

definition export_settlement :: "number \<Rightarrow> number \<Rightarrow> FinanceSettings option \<Rightarrow> settlement" where
  "export_settlement totalIncome totalExpense finance =
     (let managerPct = setting finance manager_percent;
          agentPct = setting finance agent_percent;
          managerFee = Math_round (js_mul totalIncome (js_div managerPct (Fin 100)));
          agentFee = Math_round (js_mul totalIncome (js_div agentPct (Fin 100)));
          grossFees = js_add managerFee agentFee;
          netAfter = js_sub (js_sub totalIncome grossFees) totalExpense;
          savingsPct = setting finance savings_percent;
          savingsAmount =
            (if js_gt netAfter (Fin 0)
             then Math_round (js_mul netAfter (js_div savingsPct (Fin 100)))
             else Fin 0);
          distributableNet = js_sub netAfter savingsAmount
      in \<lparr>managerFeeCents = managerFee, agentFeeCents = agentFee, grossFeesCents = grossFees,
          netAfterFeesAndExpensesCents = netAfter, savingsAmountCents = savingsAmount,
          distributableNetCents = distributableNet\<rparr>)"

text \<open>
  \<^verbatim>\<open>cuts.forEach((cut) => { if (!cut.band_member_id) return;\<close>
  \<^verbatim>\<open>  cutByMemberId[cut.band_member_id] = Number(cut.cut_percent ?? cut.percent ?? 0); });\<close>
\<close>

definition export_cutByMemberId :: "CutRow list \<Rightarrow> (string \<rightharpoonup> number)" where
  "export_cutByMemberId cuts =
     foldl (\<lambda>m cut. case band_member_id cut of None \<Rightarrow> m
                     | Some k \<Rightarrow> if k = [] then m else m(k \<mapsto> cut_value cut))
       Map.empty cuts"

record export_row =
  x_metric :: string
  x_value :: role
  x_cutPercent :: number
  x_payoutCents :: number
  x_cellC :: number
  x_cellD :: number

definition export_member_row :: "number \<Rightarrow> (string \<rightharpoonup> number) \<Rightarrow> number list \<Rightarrow> nat \<times> BandMember \<Rightarrow> export_row" where
  "export_member_row distributableNet cutByMemberId equalSplits im =
     (case im of (index, member) \<Rightarrow>
        (let cutPct = (case cutByMemberId (m_id member) of
                         Some v \<Rightarrow> v
                       | None \<Rightarrow> split_at equalSplits index);
             payout = Math_round (js_mul distributableNet (js_div cutPct (Fin 100)))
         in \<lparr>x_metric = m_member_name member, x_value = m_role member,
             x_cutPercent = cutPct, x_payoutCents = payout,
             x_cellC = js_div cutPct (Fin 100), x_cellD = js_div payout (Fin 100)\<rparr>))"

definition export_rows :: "number \<Rightarrow> BandMember list \<Rightarrow> CutRow list \<Rightarrow> export_row list" where
  "export_rows distributableNet members cuts =
     map (export_member_row distributableNet (export_cutByMemberId cuts)
            (makeEqualSplits (length members)))
       (enumerate 0 members)"

section \<open>The rounding rules of the specification\<close>

text \<open>
  Round half up on exact values, as the specification words it: to the nearest integer
  (minor unit), and to the nearest multiple of one hundredth; of two equally near
  candidates the larger one.
\<close>

definition round_half_up :: "rat \<Rightarrow> int" where
  "round_half_up x = \<lfloor>x + 1 / 2\<rfloor>"

definition round_half_up2 :: "rat \<Rightarrow> rat" where
  "round_half_up2 x = of_int (round_half_up (x * 100)) / 100"

section \<open>Facts about the rounding of binary64\<close>

lemma powi_mono: "a \<le> b \<Longrightarrow> (2::rat) powi a \<le> 2 powi b"
  by (rule power_int_increasing) simp_all

lemma powi_strict_mono: "a < b \<Longrightarrow> (2::rat) powi a < 2 powi b"
  by (rule power_int_strict_increasing) simp_all

lemma powi_pos: "0 < (2::rat) powi a"
  by simp

lemma powi_succ: "(2::rat) powi (a + 1) = 2 * 2 powi a"
  by (simp add: power_int_add)

lemma powi_pred: "(2::rat) powi (a - 1) = 2 powi a / 2"
  by (simp add: power_int_diff)

lemma bitlen_rat_bounds:
  assumes "0 < p"
  shows "(2::rat) powi (bitlen p - 1) \<le> of_int p" and "of_int p < (2::rat) powi (bitlen p)"
proof -
  from bitlen_bounds[OF assms] have lo: "2 ^ nat (bitlen p - 1) \<le> p" and hi: "p < 2 ^ nat (bitlen p)"
    by simp_all
  have b1: "1 \<le> bitlen p" using assms by (simp add: bitlen_alt_def)
  have "(2::rat) powi (bitlen p - 1) = 2 ^ nat (bitlen p - 1)"
    using b1 by (simp add: power_int_def)
  also have "\<dots> = of_int (2 ^ nat (bitlen p - 1))" by simp
  also have "\<dots> \<le> of_int p" using lo by (simp only: of_int_le_iff)
  finally show "(2::rat) powi (bitlen p - 1) \<le> of_int p" .
  have "(of_int p :: rat) < of_int (2 ^ nat (bitlen p))" using hi by (simp only: of_int_less_iff)
  also have "\<dots> = 2 ^ nat (bitlen p)" by simp
  also have "\<dots> = 2 powi (bitlen p)" using b1 by (simp add: power_int_def)
  finally show "of_int p < (2::rat) powi (bitlen p)" .
qed

lemma ilog2_bounds:
  assumes "0 < x"
  shows "2 powi (ilog2 x) \<le> x" and "x < 2 powi (ilog2 x + 1)"
proof -
  obtain p q where pq: "quotient_of x = (p, q)" by (cases "quotient_of x")
  have q: "0 < q" using pq by (rule quotient_of_denom_pos)
  have x: "x = of_int p / of_int q" using pq by (rule quotient_of_div)
  have p: "0 < p" using assms q x by (simp add: zero_less_divide_iff)
  let ?a = "bitlen p - bitlen q"
  have qr: "(0::rat) < of_int q" using q by simp
  have pr: "(0::rat) < of_int p" using p by simp
  have "x < 2 powi (bitlen p) / 2 powi (bitlen q - 1)"
    unfolding x using bitlen_rat_bounds[OF p] bitlen_rat_bounds[OF q] pr
    by (intro frac_less) (simp_all add: less_imp_le)
  also have "\<dots> = 2 powi (?a + 1)"
    by (simp add: power_int_diff power_int_add)
  finally have hi: "x < 2 powi (?a + 1)" .
  have "2 powi (bitlen p - 1) / 2 powi (bitlen q) < x"
    unfolding x using bitlen_rat_bounds[OF p] bitlen_rat_bounds[OF q] qr
    by (intro frac_less2) simp_all
  moreover have "(2::rat) powi (bitlen p - 1) / 2 powi (bitlen q) = 2 powi (?a - 1)"
    by (simp add: power_int_diff)
  ultimately have lo: "2 powi (?a - 1) < x" by simp
  have il: "ilog2 x = (if 2 powi ?a \<le> x then ?a else ?a - 1)"
    by (simp add: ilog2_def pq Let_def)
  show "2 powi (ilog2 x) \<le> x"
    using lo by (simp add: il less_imp_le)
  show "x < 2 powi (ilog2 x + 1)"
    using hi by (auto simp add: il not_le)
qed

lemma ilog2_eqI:
  assumes "2 powi e \<le> x" and "x < 2 powi (e + 1)"
  shows "ilog2 x = e"
proof -
  have x: "0 < x" using assms(1) powi_pos[of e] by (rule less_le_trans[rotated])
  note b = ilog2_bounds[OF x]
  have "\<not> ilog2 x < e"
  proof
    assume "ilog2 x < e"
    then have "ilog2 x + 1 \<le> e" by simp
    then have "(2::rat) powi (ilog2 x + 1) \<le> 2 powi e" by (rule powi_mono)
    with b(2) assms(1) show False by simp
  qed
  moreover have "\<not> e < ilog2 x"
  proof
    assume "e < ilog2 x"
    then have "e + 1 \<le> ilog2 x" by simp
    then have "(2::rat) powi (e + 1) \<le> 2 powi (ilog2 x)" by (rule powi_mono)
    with b(1) assms(2) show False by simp
  qed
  ultimately show ?thesis by simp
qed

lemma ilog2_unfold:
  assumes "0 < x"
  shows "ilog2 x = (if x < 1 then ilog2 (2 * x) - 1 else if 2 \<le> x then ilog2 (x / 2) + 1 else 0)"
proof -
  have "ilog2 x = ilog2 (2 * x) - 1"
  proof (rule ilog2_eqI)
    have x2: "0 < 2 * x" using assms by simp
    note b = ilog2_bounds[OF x2]
    show "2 powi (ilog2 (2 * x) - 1) \<le> x" using b(1) by (simp add: powi_pred)
    show "x < 2 powi (ilog2 (2 * x) - 1 + 1)" using b(2) by (simp add: powi_succ)
  qed
  moreover have "ilog2 x = ilog2 (x / 2) + 1"
  proof (rule ilog2_eqI)
    have x2: "0 < x / 2" using assms by simp
    note b = ilog2_bounds[OF x2]
    show "2 powi (ilog2 (x / 2) + 1) \<le> x" using b(1) by (simp add: powi_succ)
    have "x < 2 * 2 powi (ilog2 (x / 2) + 1)" using b(2) by simp
    then show "x < 2 powi (ilog2 (x / 2) + 1 + 1)" by (simp only: powi_succ)
  qed
  moreover have "1 \<le> x \<Longrightarrow> x < 2 \<Longrightarrow> ilog2 x = 0"
    by (rule ilog2_eqI) simp_all
  ultimately show ?thesis by (auto simp: not_less not_le)
qed

lemma floor_rat_numeral_div:
  "\<lfloor>(numeral a / numeral b :: rat)\<rfloor> = numeral a div numeral b"
  using floor_divide_of_int_eq[of "numeral a" "numeral b", where ?'a = rat] by simp

lemma floor_rat_neg_numeral_div:
  "\<lfloor>(- (numeral a / numeral b) :: rat)\<rfloor> = (- numeral a) div numeral b"
  using floor_divide_of_int_eq[of "- numeral a" "numeral b", where ?'a = rat] by simp

lemmas js_eval = fl_def fl_pos_def round_half_even_def ilog2_unfold Let_def
  floor_rat_numeral_div floor_rat_neg_numeral_div

text \<open>Three well-known binary64 facts, as a check of the model: 0.1 + 0.2 is not 0.3.\<close>

lemma binary64_examples:
  "lit (1 / 10) = Fin (3602879701896397 / 36028797018963968)"
  "js_add (lit (1 / 10)) (lit (2 / 10)) = Fin (1351079888211149 / 4503599627370496)"
  "lit (3 / 10) = Fin (5404319552844595 / 18014398509481984)"
  by (simp_all add: lit_def js_eval)

lemma round_half_even_err: "\<bar>of_int (round_half_even r) - r\<bar> \<le> 1 / 2"
proof -
  have "of_int \<lfloor>r\<rfloor> \<le> r" "r < of_int \<lfloor>r\<rfloor> + 1" by linarith+
  then show ?thesis
    by (auto simp: round_half_even_def Let_def abs_le_iff)
qed

lemma round_half_even_of_int [simp]: "round_half_even (of_int n) = n"
  by (simp add: round_half_even_def)

lemma round_half_even_nonneg: "0 \<le> r \<Longrightarrow> 0 \<le> round_half_even r"
proof -
  assume "0 \<le> r"
  then have "0 \<le> \<lfloor>r\<rfloor>" by simp
  then show ?thesis by (simp add: round_half_even_def Let_def)
qed

lemma fl_pos_cases:
  assumes "0 < x"
  defines "e \<equiv> max (ilog2 x) (- 1022)"
  defines "q \<equiv> (2::rat) powi (e - 52)"
  defines "y \<equiv> of_int (round_half_even (x / q)) * q"
  shows "fl_pos x = (if 2 powi 1024 \<le> y then PInf else Fin y)" and "\<bar>y - x\<bar> \<le> q / 2" and "0 \<le> y"
proof -
  show "fl_pos x = (if 2 powi 1024 \<le> y then PInf else Fin y)"
    by (simp add: fl_pos_def Let_def e_def q_def y_def)
  have q: "0 < q" by (simp add: q_def)
  have "\<bar>of_int (round_half_even (x / q)) - x / q\<bar> \<le> 1 / 2" by (rule round_half_even_err)
  then have "\<bar>of_int (round_half_even (x / q)) - x / q\<bar> * q \<le> 1 / 2 * q"
    using q by (intro mult_right_mono) simp_all
  moreover have "\<bar>of_int (round_half_even (x / q)) - x / q\<bar> * q = \<bar>y - x\<bar>"
    using q by (simp add: y_def abs_mult[symmetric, of _ q, simplified] left_diff_distrib abs_mult_pos)
  ultimately show "\<bar>y - x\<bar> \<le> q / 2" by simp
  have "0 \<le> x / q" using assms(1) q by simp
  then have "0 \<le> round_half_even (x / q)" by (rule round_half_even_nonneg)
  then show "0 \<le> y" using q by (simp add: y_def)
qed

lemma powi_le_cancel: "(2::rat) powi a \<le> 2 powi b \<Longrightarrow> a \<le> b"
  by (rule ccontr) (use powi_strict_mono[of b a] in simp)

lemma powi_less_cancel: "(2::rat) powi a < 2 powi b \<Longrightarrow> a < b"
  by (rule ccontr) (use powi_mono[of b a] in simp)

lemma ilog2_le:
  assumes "0 < x" "x \<le> 2 powi k"
  shows "ilog2 x \<le> k"
proof -
  have "2 powi (ilog2 x) \<le> x" using assms(1) by (rule ilog2_bounds)
  with assms(2) have "(2::rat) powi (ilog2 x) \<le> 2 powi k" by simp
  then show ?thesis by (rule powi_le_cancel)
qed

lemma ilog2_less:
  assumes "0 < x" "x < 2 powi k"
  shows "ilog2 x < k"
proof -
  have "2 powi (ilog2 x) \<le> x" using assms(1) by (rule ilog2_bounds)
  with assms(2) have "(2::rat) powi (ilog2 x) < 2 powi k" by simp
  then show ?thesis by (rule powi_less_cancel)
qed

lemma fl_neg: "fl (- x) = js_neg (fl x)"
proof -
  have "js_neg (js_neg a) = a" for a by (cases a) simp_all
  then show ?thesis by (simp add: fl_def)
qed

lemma round_half_even_le: "round_half_even r \<le> \<lfloor>r\<rfloor> + 1"
  by (simp add: round_half_even_def Let_def)

lemma powi_int_mult: "0 \<le> d \<Longrightarrow> of_int m * (2::rat) powi d = of_int (m * 2 ^ nat d)"
  by (simp add: power_int_def)

lemma powi_add_eq: "a + b = c \<Longrightarrow> (2::rat) powi a * 2 powi b = 2 powi c"
  using power_int_add[of "2::rat" a b] by simp

lemma powi_diff_eq: "a - b = c \<Longrightarrow> (2::rat) powi a / 2 powi b = 2 powi c"
  using power_int_diff[of "2::rat" a b] by simp

lemma fl_pos_idem:
  assumes x: "0 < x" and fx: "fl_pos x = Fin y"
  shows "fl y = Fin y"
proof -
  define e where "e = max (ilog2 x) (- 1022)"
  define q where "q = (2::rat) powi (e - 52)"
  define m where "m = round_half_even (x / q)"
  have q: "0 < q" by (simp add: q_def)
  have e: "- 1022 \<le> e" "ilog2 x \<le> e" by (simp_all add: e_def)
  have fx': "fl_pos x = (if 2 powi 1024 \<le> of_int m * q then PInf else Fin (of_int m * q))"
    by (simp add: fl_pos_def Let_def e_def q_def m_def)
  with fx have y: "y = of_int m * q" and ylt: "y < 2 powi 1024"
    by (simp_all split: if_splits)
  have "x < 2 powi (ilog2 x + 1)" using x by (rule ilog2_bounds)
  also have "\<dots> \<le> 2 powi (e + 1)" using e by (intro powi_mono) simp
  finally have xe: "x < 2 powi (e + 1)" .
  have "2 powi (e + 1) / q = (2::rat) powi 53"
    unfolding q_def by (rule powi_diff_eq) simp
  moreover have "x / q < 2 powi (e + 1) / q" using xe q by (rule divide_strict_right_mono)
  ultimately have "x / q < 2 powi 53" by simp
  then have "x / q < of_int (2 ^ 53)" by simp
  then have "\<lfloor>x / q\<rfloor> < 2 ^ 53" by (simp only: floor_less_iff)
  with round_half_even_le[of "x / q"] have m53: "m \<le> 2 ^ 53" unfolding m_def by linarith
  have "0 \<le> x / q" using x q by simp
  then have m0: "0 \<le> m" unfolding m_def by (rule round_half_even_nonneg)
  show ?thesis
  proof (cases "m = 0")
    case True
    then show ?thesis by (simp add: y fl_def)
  next
    case False
    with m0 have mpos: "0 < m" by simp
    then have ypos: "0 < y" using q by (simp add: y)
    define e' where "e' = max (ilog2 y) (- 1022)"
    define q' where "q' = (2::rat) powi (e' - 52)"
    have q': "0 < q'" by (simp add: q'_def)
    have "\<exists>z. y / q' = of_int z"
    proof (cases "m = 2 ^ 53")
      case True
      have "y = 2 powi 53 * 2 powi (e - 52)" by (simp add: y True q_def)
      also have "\<dots> = 2 powi (e + 1)" by (rule powi_add_eq) simp
      finally have y2: "y = 2 powi (e + 1)" .
      have "ilog2 y = e + 1" by (rule ilog2_eqI) (simp_all add: y2 powi_strict_mono)
      then have "e' = e + 1" using e by (simp add: e'_def)
      then have "y / q' = 2 powi 52" unfolding y2 q'_def by (intro powi_diff_eq) simp
      also have "\<dots> = of_int (2 ^ 52)" by simp
      finally show ?thesis by blast
    next
      case False
      with m53 have "m \<le> 2 ^ 53 - 1" by simp
      then have "(of_int m :: rat) \<le> of_int (2 ^ 53 - 1)" by (simp only: of_int_le_iff)
      then have "(of_int m :: rat) < 2 powi 53" by simp
      then have "of_int m * q < 2 powi 53 * q" using q by simp
      also have "\<dots> = 2 powi (e + 1)" unfolding q_def by (rule powi_add_eq) simp
      finally have "y < 2 powi (e + 1)" by (simp add: y)
      with ypos have "ilog2 y < e + 1" by (rule ilog2_less)
      then have e'e: "e' \<le> e" using e by (simp add: e'_def)
      have "q / q' = 2 powi (e - e')" unfolding q_def q'_def by (rule powi_diff_eq) simp
      then have "of_int m * (q / q') = of_int m * 2 powi (e - e')" by (simp only:)
      then have "y / q' = of_int m * 2 powi (e - e')" by (simp only: y times_divide_eq_right)
      also have "\<dots> = of_int (m * 2 ^ nat (e - e'))" using e'e by (intro powi_int_mult) simp
      finally show ?thesis by blast
    qed
    then obtain z where z: "y / q' = of_int z" by blast
    then have yz: "y = of_int z * q'" using q' by (simp add: field_simps)
    have "fl_pos y = (if 2 powi 1024 \<le> of_int (round_half_even (y / q')) * q' then PInf
                      else Fin (of_int (round_half_even (y / q')) * q'))"
      by (simp add: fl_pos_def Let_def e'_def q'_def)
    also have "\<dots> = Fin y" using ylt by (simp add: z yz[symmetric])
    finally show ?thesis using ypos by (simp add: fl_def)
  qed
qed

lemma fl_idem:
  assumes "fl x = Fin y"
  shows "fl y = Fin y"
proof -
  consider "x = 0" | "0 < x" | "x < 0" by linarith
  then show ?thesis
  proof cases
    case 1
    with assms show ?thesis by (simp add: fl_def)
  next
    case 2
    with assms have "fl_pos x = Fin y" by (simp add: fl_def)
    with 2 show ?thesis by (rule fl_pos_idem)
  next
    case 3
    with assms have "js_neg (fl_pos (- x)) = Fin y" by (simp add: fl_def)
    then have "fl_pos (- x) = Fin (- y)" by (cases "fl_pos (- x)") simp_all
    with 3 have "fl (- y) = Fin (- y)" by (intro fl_pos_idem[of "- x"]) simp_all
    then have "js_neg (fl y) = Fin (- y)" by (simp add: fl_neg)
    then show ?thesis by (cases "fl y") simp_all
  qed
qed

section \<open>The settlement figures: withholding\<close>

lemma js_add_zero_right: "js_add (js_add a b) (Fin 0) = js_add a b"
proof (cases "js_add a b")
  case (Fin y)
  then obtain a' b' where ab: "a = Fin a'" "b = Fin b'"
    by (cases a; cases b) simp_all
  with Fin have "fl (a' + b') = Fin y" by simp
  then have "fl y = Fin y" by (rule fl_idem)
  with Fin show ?thesis by simp
qed simp_all

lemma js_sub_zero_right: "js_sub (js_sub a b) (Fin 0) = js_sub a b"
  by (simp add: js_sub_def js_add_zero_right)

lemma page_settlement_simps:
  "managerFeeCents (page_settlement i e s m a) = Math_round (js_mul i (js_div m (Fin 100)))"
  "agentFeeCents (page_settlement i e s m a) = Math_round (js_mul i (js_div a (Fin 100)))"
  "grossFeesCents (page_settlement i e s m a) =
     js_add (managerFeeCents (page_settlement i e s m a)) (agentFeeCents (page_settlement i e s m a))"
  "netAfterFeesAndExpensesCents (page_settlement i e s m a) =
     js_sub (js_sub i (grossFeesCents (page_settlement i e s m a))) e"
  "savingsAmountCents (page_settlement i e s m a) =
     (if js_gt (netAfterFeesAndExpensesCents (page_settlement i e s m a)) (Fin 0)
      then Math_round (js_mul (netAfterFeesAndExpensesCents (page_settlement i e s m a)) (js_div s (Fin 100)))
      else Fin 0)"
  "distributableNetCents (page_settlement i e s m a) =
     js_sub (netAfterFeesAndExpensesCents (page_settlement i e s m a))
       (savingsAmountCents (page_settlement i e s m a))"
  by (simp_all add: page_settlement_def Let_def)

lemma export_settlement_eq:
  "export_settlement i e finance =
     page_settlement i e (setting finance savings_percent) (setting finance manager_percent)
       (setting finance agent_percent)"
  by (simp add: export_settlement_def page_settlement_def Let_def)

lemma js_le_not_gt: "js_le a (Fin 0) \<Longrightarrow> \<not> js_gt a (Fin 0)"
  by (cases a) (simp_all add: js_gt_def)

text \<open>
  Claim C5. Whenever the net after fees and expenses is not positive, the savings amount
  is 0, whatever the savings percentage, and the distributable net is that same net: a
  loss is passed on unchanged.
\<close>

theorem no_withholding_on_nonpositive_net:
  assumes "js_le (netAfterFeesAndExpensesCents (page_settlement i e s m a)) (Fin 0)"
  shows "savingsAmountCents (page_settlement i e s m a) = Fin 0 \<and>
         distributableNetCents (page_settlement i e s m a) =
           netAfterFeesAndExpensesCents (page_settlement i e s m a)"
proof -
  have ngt: "\<not> js_gt (netAfterFeesAndExpensesCents (page_settlement i e s m a)) (Fin 0)"
    using assms by (rule js_le_not_gt)
  then have sav: "savingsAmountCents (page_settlement i e s m a) = Fin 0"
    by (simp add: page_settlement_simps(5))
  have "distributableNetCents (page_settlement i e s m a) =
          js_sub (netAfterFeesAndExpensesCents (page_settlement i e s m a)) (Fin 0)"
    by (simp only: page_settlement_simps(6) sav)
  also have "\<dots> = netAfterFeesAndExpensesCents (page_settlement i e s m a)"
    by (simp only: page_settlement_simps(4) js_sub_zero_right)
  finally show ?thesis using sav by simp
qed

text \<open>A tour that lost money: 100.00 of income, 200.00 of expenses.\<close>

lemmas settle_eval = js_eval page_settlement_def js_sub_def js_gt_def

lemma loss_example:
  "page_settlement (Fin 10000) (Fin 20000) (Fin 50) (Fin 10) (Fin 5) =
     \<lparr>managerFeeCents = Fin 1000, agentFeeCents = Fin 500, grossFeesCents = Fin 1500,
      netAfterFeesAndExpensesCents = Fin (- 11500), savingsAmountCents = Fin 0,
      distributableNetCents = Fin (- 11500)\<rparr>"
  by (simp add: settle_eval)

theorem no_withholding_on_nonpositive_net_witness:
  "js_le (netAfterFeesAndExpensesCents
            (page_settlement (Fin 10000) (Fin 20000) (Fin 50) (Fin 10) (Fin 5))) (Fin 0) \<and>
   savingsAmountCents (page_settlement (Fin 10000) (Fin 20000) (Fin 50) (Fin 10) (Fin 5)) = Fin 0 \<and>
   distributableNetCents (page_settlement (Fin 10000) (Fin 20000) (Fin 50) (Fin 10) (Fin 5)) =
     Fin (- 11500)"
proof -
  have h: "js_le (netAfterFeesAndExpensesCents
            (page_settlement (Fin 10000) (Fin 20000) (Fin 50) (Fin 10) (Fin 5))) (Fin 0)"
    by (simp add: loss_example)
  from no_withholding_on_nonpositive_net[OF h] h show ?thesis
    by (simp add: loss_example)
qed

section \<open>The cut of a member\<close>

lemma page_cutByMemberId_Nil [simp]: "page_cutByMemberId [] = Map.empty"
  by (simp add: page_cutByMemberId_def)

lemma page_cutByMemberId_snoc:
  "page_cutByMemberId (cs @ [c]) =
     (case band_member_id c of None \<Rightarrow> page_cutByMemberId cs
      | Some k \<Rightarrow> if k = [] then page_cutByMemberId cs else (page_cutByMemberId cs)(k \<mapsto> c))"
  by (simp add: page_cutByMemberId_def split: option.splits)

lemma export_cutByMemberId_Nil [simp]: "export_cutByMemberId [] = Map.empty"
  by (simp add: export_cutByMemberId_def)

lemma export_cutByMemberId_snoc:
  "export_cutByMemberId (cs @ [c]) =
     (case band_member_id c of None \<Rightarrow> export_cutByMemberId cs
      | Some k \<Rightarrow> if k = [] then export_cutByMemberId cs
                  else (export_cutByMemberId cs)(k \<mapsto> cut_value c))"
  by (simp add: export_cutByMemberId_def split: option.splits)

lemma export_cutByMemberId_page:
  "export_cutByMemberId cuts k = map_option cut_value (page_cutByMemberId cuts k)"
proof (induction cuts rule: rev_induct)
  case Nil
  show ?case by simp
next
  case (snoc c cs)
  then show ?case
    by (simp add: page_cutByMemberId_snoc export_cutByMemberId_snoc split: option.splits)
qed

lemma page_cutByMemberId_SomeD:
  "page_cutByMemberId cuts k = Some c \<Longrightarrow> c \<in> set cuts \<and> band_member_id c = Some k"
proof (induction cuts rule: rev_induct)
  case Nil
  then show ?case by simp
next
  case (snoc c' cs)
  then show ?case
    by (auto simp: page_cutByMemberId_snoc split: option.splits if_splits)
qed

lemma page_cutByMemberId_None:
  "\<forall>c\<in>set cuts. band_member_id c \<noteq> Some k \<Longrightarrow> page_cutByMemberId cuts k = None"
proof (induction cuts rule: rev_induct)
  case Nil
  show ?case by simp
next
  case (snoc c' cs)
  then show ?case
    by (auto simp: page_cutByMemberId_snoc split: option.splits)
qed

lemma page_cutByMemberId_Some:
  "k \<noteq> [] \<Longrightarrow> c \<in> set cuts \<Longrightarrow> band_member_id c = Some k \<Longrightarrow>
     \<exists>c'. page_cutByMemberId cuts k = Some c'"
proof (induction cuts rule: rev_induct)
  case Nil
  then show ?case by simp
next
  case (snoc c' cs)
  then show ?case
    by (auto simp: page_cutByMemberId_snoc split: option.splits)
qed

lemma page_row_cutPercent:
  "cutPercent (page_row cm em es (i, m)) =
     (case cm (m_id m) of Some c \<Rightarrow> cut_value c | None \<Rightarrow> split_at es i)"
  by (simp add: page_row_def)

lemma export_member_row_cutPercent:
  "x_cutPercent (export_member_row d (export_cutByMemberId cuts) es (i, m)) =
     (case page_cutByMemberId cuts (m_id m) of Some c \<Rightarrow> cut_value c | None \<Rightarrow> split_at es i)"
  by (simp add: export_member_row_def export_cutByMemberId_page Let_def split: option.splits)

lemma export_member_row_payout:
  "x_payoutCents (export_member_row d cm es im) =
     payoutCents d (x_cutPercent (export_member_row d cm es im))"
  by (cases im) (simp add: export_member_row_def payoutCents_def Let_def)

lemma export_row_page_row:
  "x_cutPercent (export_member_row d (export_cutByMemberId cuts) es im) =
     cutPercent (page_row (page_cutByMemberId cuts) em es im)"
  by (cases im) (simp add: export_member_row_cutPercent page_row_cutPercent)

lemma export_rows_cutPercent:
  "map x_cutPercent (export_rows d members cuts) = map cutPercent (nextRows members em cuts)"
  unfolding export_rows_def nextRows_def map_map
  by (rule map_cong[OF refl]) (simp add: export_row_page_row[where em = em])

lemma export_rows_payout:
  "map x_payoutCents (export_rows d members cuts) =
     map (\<lambda>row. payoutCents d (cutPercent row)) (nextRows members em cuts)"
  unfolding export_rows_def nextRows_def map_map
  by (rule map_cong[OF refl])
     (simp add: export_member_row_payout export_row_page_row[where em = em])

text \<open>
  Claim C10. A member with a cut record whose two percentage columns are both \<open>null\<close>
  gets 0 percent, on the page and in the export, whatever the equal split would be; the
  equal split is used exactly for a member with no cut record. (A cut record counts for
  the member whose non-empty id it carries.)
\<close>

theorem null_cut_record_suppresses_equal_split:
  assumes "m_id member \<noteq> []"
  shows "((\<exists>c\<in>set cuts. band_member_id c = Some (m_id member)) \<and>
          (\<forall>c\<in>set cuts. band_member_id c = Some (m_id member) \<longrightarrow>
              cut_percent c = None \<and> percent c = None) \<longrightarrow>
            cutPercent (page_row (page_cutByMemberId cuts) emails splits (index, member)) = Fin 0 \<and>
            x_cutPercent (export_member_row d (export_cutByMemberId cuts) splits (index, member)) = Fin 0) \<and>
         ((\<forall>c\<in>set cuts. band_member_id c \<noteq> Some (m_id member)) \<longrightarrow>
            cutPercent (page_row (page_cutByMemberId cuts) emails splits (index, member)) =
              split_at splits index \<and>
            x_cutPercent (export_member_row d (export_cutByMemberId cuts) splits (index, member)) =
              split_at splits index)"
proof (intro conjI impI)
  assume a: "(\<exists>c\<in>set cuts. band_member_id c = Some (m_id member)) \<and>
          (\<forall>c\<in>set cuts. band_member_id c = Some (m_id member) \<longrightarrow>
              cut_percent c = None \<and> percent c = None)"
  then obtain c where "c \<in> set cuts" "band_member_id c = Some (m_id member)" by blast
  with assms obtain c' where c': "page_cutByMemberId cuts (m_id member) = Some c'"
    using page_cutByMemberId_Some by blast
  from page_cutByMemberId_SomeD[OF c'] a have "cut_percent c' = None \<and> percent c' = None"
    by blast
  then have v: "cut_value c' = Fin 0" by (simp add: cut_value_def)
  show "cutPercent (page_row (page_cutByMemberId cuts) emails splits (index, member)) = Fin 0"
    by (simp add: page_row_cutPercent c' v)
  show "x_cutPercent (export_member_row d (export_cutByMemberId cuts) splits (index, member)) = Fin 0"
    by (simp add: export_member_row_cutPercent c' v)
next
  assume "\<forall>c\<in>set cuts. band_member_id c \<noteq> Some (m_id member)"
  then have n: "page_cutByMemberId cuts (m_id member) = None" by (rule page_cutByMemberId_None)
  show "cutPercent (page_row (page_cutByMemberId cuts) emails splits (index, member)) =
          split_at splits index"
    by (simp add: page_row_cutPercent n)
  show "x_cutPercent (export_member_row d (export_cutByMemberId cuts) splits (index, member)) =
          split_at splits index"
    by (simp add: export_member_row_cutPercent n)
qed

lemma makeEqualSplits_2: "makeEqualSplits 2 = [Fin 50, Fin 50]"
  by (simp add: js_eval round2_def Number_EPSILON_def makeEqualSplits_def js_sub_def
        eval_nat_numeral)

theorem null_cut_record_suppresses_equal_split_witness:
  "cutPercent (page_row
       (page_cutByMemberId [\<lparr>c_id = ''c1'', band_member_id = Some ''a'', cut_percent = None, percent = None\<rparr>])
       Map.empty (makeEqualSplits 2)
       (0, \<lparr>m_id = ''a'', m_user_id = ''ua'', m_member_name = ''Ann'', m_role = Owner\<rparr>)) = Fin 0 \<and>
   x_cutPercent (export_member_row (Fin 58500)
       (export_cutByMemberId [\<lparr>c_id = ''c1'', band_member_id = Some ''a'', cut_percent = None, percent = None\<rparr>])
       (makeEqualSplits 2)
       (0, \<lparr>m_id = ''a'', m_user_id = ''ua'', m_member_name = ''Ann'', m_role = Owner\<rparr>)) = Fin 0 \<and>
   cutPercent (page_row
       (page_cutByMemberId [\<lparr>c_id = ''c1'', band_member_id = Some ''a'', cut_percent = None, percent = None\<rparr>])
       Map.empty (makeEqualSplits 2)
       (1, \<lparr>m_id = ''b'', m_user_id = ''ub'', m_member_name = ''Bob'', m_role = Member\<rparr>)) = Fin 50 \<and>
   x_cutPercent (export_member_row (Fin 58500)
       (export_cutByMemberId [\<lparr>c_id = ''c1'', band_member_id = Some ''a'', cut_percent = None, percent = None\<rparr>])
       (makeEqualSplits 2)
       (1, \<lparr>m_id = ''b'', m_user_id = ''ub'', m_member_name = ''Bob'', m_role = Member\<rparr>)) = Fin 50"
proof -
  let ?cuts = "[\<lparr>c_id = ''c1'', band_member_id = Some ''a'', cut_percent = None, percent = None\<rparr>]"
  let ?a = "\<lparr>m_id = ''a'', m_user_id = ''ua'', m_member_name = ''Ann'', m_role = Owner\<rparr>"
  let ?b = "\<lparr>m_id = ''b'', m_user_id = ''ub'', m_member_name = ''Bob'', m_role = Member\<rparr>"
  have a: "m_id ?a \<noteq> []" and b: "m_id ?b \<noteq> []" by simp_all
  have ha: "(\<exists>c\<in>set ?cuts. band_member_id c = Some (m_id ?a)) \<and>
            (\<forall>c\<in>set ?cuts. band_member_id c = Some (m_id ?a) \<longrightarrow>
               cut_percent c = None \<and> percent c = None)" by simp
  have hb: "\<forall>c\<in>set ?cuts. band_member_id c \<noteq> Some (m_id ?b)" by simp
  have s1: "split_at (makeEqualSplits 2) 1 = Fin 50"
    by (simp add: split_at_def makeEqualSplits_2)
  from null_cut_record_suppresses_equal_split[OF a, of ?cuts Map.empty "makeEqualSplits 2" 0 "Fin 58500"]
    ha
  have "cutPercent (page_row (page_cutByMemberId ?cuts) Map.empty (makeEqualSplits 2) (0, ?a)) = Fin 0 \<and>
        x_cutPercent (export_member_row (Fin 58500) (export_cutByMemberId ?cuts) (makeEqualSplits 2) (0, ?a)) = Fin 0"
    by blast
  moreover
  from null_cut_record_suppresses_equal_split[OF b, of ?cuts Map.empty "makeEqualSplits 2" 1 "Fin 58500"]
    hb
  have "cutPercent (page_row (page_cutByMemberId ?cuts) Map.empty (makeEqualSplits 2) (1, ?b)) =
          split_at (makeEqualSplits 2) 1 \<and>
        x_cutPercent (export_member_row (Fin 58500) (export_cutByMemberId ?cuts) (makeEqualSplits 2) (1, ?b)) =
          split_at (makeEqualSplits 2) 1"
    by blast
  ultimately show ?thesis by (simp only: s1) 
qed

section \<open>The page and the export\<close>

lemma loadPage_loaded:
  assumes "members \<noteq> []" and "find (\<lambda>m. m_user_id m = user) members = Some me"
  shows "totalIncomeCents (loadPage user finance members emails entries cuts s0) = fst (ledger_totals entries)"
    and "totalExpenseCents (loadPage user finance members emails entries cuts s0) = snd (ledger_totals entries)"
    and "savingsPercent (loadPage user finance members emails entries cuts s0) = setting finance savings_percent"
    and "managerPercent (loadPage user finance members emails entries cuts s0) = setting finance manager_percent"
    and "agentPercent (loadPage user finance members emails entries cuts s0) = setting finance agent_percent"
    and "rows (loadPage user finance members emails entries cuts s0) = nextRows members emails cuts"
  using assms by (simp_all add: loadPage_def Let_def)

text \<open>
  Claim C9. When the page has loaded (there are active members and the user is one of
  them), the figures it shows are those the export route computes from the same ledger,
  settings, members and cuts: both fees, the net after fees and expenses, the savings
  amount, the distributable net, every member's percentage and every member's payout.
\<close>

theorem page_and_export_agree:
  assumes "members \<noteq> []"
    and "find (\<lambda>m. m_user_id m = user) members = Some me"
    and "s = loadPage user finance members emails entries cuts s0"
    and "x = export_settlement (fst (ledger_totals entries)) (snd (ledger_totals entries)) finance"
  shows "page_figures s = x \<and>
         map cutPercent (rows s) = map x_cutPercent (export_rows (distributableNetCents x) members cuts) \<and>
         page_payouts s = map x_payoutCents (export_rows (distributableNetCents x) members cuts)"
proof -
  note l = loadPage_loaded[OF assms(1,2), of finance emails entries cuts s0, folded assms(3)]
  have f: "page_figures s = x"
    by (simp add: page_figures_def l assms(4) export_settlement_eq)
  have r: "map cutPercent (rows s) = map x_cutPercent (export_rows (distributableNetCents x) members cuts)"
    by (simp only: l(6) export_rows_cutPercent[where em = emails])
  have p: "page_payouts s = map x_payoutCents (export_rows (distributableNetCents x) members cuts)"
    by (simp only: page_payouts_def f l(6) export_rows_payout[where em = emails])
  from f r p show ?thesis by simp
qed

lemma makeEqualSplits_3:
  "makeEqualSplits 3 =
     [Fin (2345390243441541 / 70368744177664), Fin (2345390243441541 / 70368744177664),
      Fin (1173046965441659 / 35184372088832)]"
  by (simp add: js_eval round2_def Number_EPSILON_def makeEqualSplits_def js_sub_def
        eval_nat_numeral)

lemma spec_example:
  "page_settlement (Fin 100000) (Fin 20000) (Fin 10) (Fin 10) (Fin 5) =
     \<lparr>managerFeeCents = Fin 10000, agentFeeCents = Fin 5000, grossFeesCents = Fin 15000,
      netAfterFeesAndExpensesCents = Fin 65000, savingsAmountCents = Fin 6500,
      distributableNetCents = Fin 58500\<rparr>"
  by (simp add: settle_eval)

theorem page_and_export_agree_witness:
  "[\<lparr>m_id = ''a'', m_user_id = ''ua'', m_member_name = ''Ann'', m_role = Owner\<rparr>,
    \<lparr>m_id = ''b'', m_user_id = ''ub'', m_member_name = ''Bob'', m_role = Member\<rparr>,
    \<lparr>m_id = ''c'', m_user_id = ''uc'', m_member_name = ''Cy'', m_role = Member\<rparr>] \<noteq> [] \<and>
   find (\<lambda>m. m_user_id m = ''ub'')
     [\<lparr>m_id = ''a'', m_user_id = ''ua'', m_member_name = ''Ann'', m_role = Owner\<rparr>,
      \<lparr>m_id = ''b'', m_user_id = ''ub'', m_member_name = ''Bob'', m_role = Member\<rparr>,
      \<lparr>m_id = ''c'', m_user_id = ''uc'', m_member_name = ''Cy'', m_role = Member\<rparr>]
     = Some \<lparr>m_id = ''b'', m_user_id = ''ub'', m_member_name = ''Bob'', m_role = Member\<rparr> \<and>
   page_payouts
     (loadPage ''ub''
        (Some \<lparr>savings_percent = Some (Fin 10), manager_percent = Some (Fin 10), agent_percent = Some (Fin 5)\<rparr>)
        [\<lparr>m_id = ''a'', m_user_id = ''ua'', m_member_name = ''Ann'', m_role = Owner\<rparr>,
         \<lparr>m_id = ''b'', m_user_id = ''ub'', m_member_name = ''Bob'', m_role = Member\<rparr>,
         \<lparr>m_id = ''c'', m_user_id = ''uc'', m_member_name = ''Cy'', m_role = Member\<rparr>]
        Map.empty
        [\<lparr>l_entry_type = Income, amount_cents = Fin 100000\<rparr>,
         \<lparr>l_entry_type = Expense, amount_cents = Fin 20000\<rparr>]
        [] (initial_state (Some ''t1'')))
     = [Fin 19498, Fin 19498, Fin 19504]"
proof -
  let ?ms = "[\<lparr>m_id = ''a'', m_user_id = ''ua'', m_member_name = ''Ann'', m_role = Owner\<rparr>,
    \<lparr>m_id = ''b'', m_user_id = ''ub'', m_member_name = ''Bob'', m_role = Member\<rparr>,
    \<lparr>m_id = ''c'', m_user_id = ''uc'', m_member_name = ''Cy'', m_role = Member\<rparr>]"
  let ?fin = "Some \<lparr>savings_percent = Some (Fin 10), manager_percent = Some (Fin 10), agent_percent = Some (Fin 5)\<rparr>"
  let ?es = "[\<lparr>l_entry_type = Income, amount_cents = Fin 100000\<rparr>,
         \<lparr>l_entry_type = Expense, amount_cents = Fin 20000\<rparr>]"
  have h1: "?ms \<noteq> []" by simp
  have h2: "find (\<lambda>m. m_user_id m = ''ub'') ?ms
              = Some \<lparr>m_id = ''b'', m_user_id = ''ub'', m_member_name = ''Bob'', m_role = Member\<rparr>"
    by simp
  have t: "ledger_totals ?es = (Fin 100000, Fin 20000)"
    by (simp add: ledger_totals_def ledger_step_def js_eval)
  have x: "export_settlement (fst (ledger_totals ?es)) (snd (ledger_totals ?es)) ?fin =
      \<lparr>managerFeeCents = Fin 10000, agentFeeCents = Fin 5000, grossFeesCents = Fin 15000,
       netAfterFeesAndExpensesCents = Fin 65000, savingsAmountCents = Fin 6500,
       distributableNetCents = Fin 58500\<rparr>"
    by (simp add: t export_settlement_eq setting_def spec_example)
  have len: "length ?ms = 3" by simp
  have r: "map x_payoutCents (export_rows (Fin 58500) ?ms []) = [Fin 19498, Fin 19498, Fin 19504]"
    unfolding export_rows_def len makeEqualSplits_3
    by (simp add: export_member_row_def split_at_def
          js_eval enumerate_eq_zip upt_rec[of 0] upt_rec[of 1] upt_rec[of 2]
          Let_def)
  from page_and_export_agree[OF h1 h2 refl refl, of ?fin Map.empty ?es "[]" "initial_state (Some ''t1'')"]
  have "page_payouts (loadPage ''ub'' ?fin ?ms Map.empty ?es [] (initial_state (Some ''t1''))) =
          map x_payoutCents (export_rows (Fin 58500) ?ms [])"
    by (simp only: x settlement.simps)
  with r have p: "page_payouts (loadPage ''ub'' ?fin ?ms Map.empty ?es [] (initial_state (Some ''t1''))) =
          [Fin 19498, Fin 19498, Fin 19504]"
    by (simp only:)
  show ?thesis by (rule conjI[OF h1 conjI[OF h2 p]])
qed

section \<open>Feeding the percentages back\<close>

lemma length_nextRows [simp]: "length (nextRows members emails cuts) = length members"
  by (simp add: nextRows_def)

lemma nth_nextRows:
  "i < length members \<Longrightarrow>
     nextRows members emails cuts ! i =
       page_row (page_cutByMemberId cuts) emails (makeEqualSplits (length members)) (i, members ! i)"
  by (simp add: nextRows_def nth_enumerate_eq)

lemma nextRows_bandMemberId:
  "i < length members \<Longrightarrow> bandMemberId (nextRows members emails cuts ! i) = m_id (members ! i)"
  by (simp add: nth_nextRows page_row_def)

lemma nextRows_round_trip:
  assumes d: "distinct (map m_id members)"
    and ne: "\<forall>m\<in>set members. m_id m \<noteq> []"
    and len: "length cuts' = length members"
    and ov: "\<forall>i<length members.
               band_member_id (cuts' ! i) = Some (bandMemberId (nextRows members emails cuts ! i)) \<and>
               cut_percent (cuts' ! i) = Some (cutPercent (nextRows members emails cuts ! i))"
  shows "map cutPercent (nextRows members emails cuts') = map cutPercent (nextRows members emails cuts)"
proof (rule nth_equalityI)
  show "length (map cutPercent (nextRows members emails cuts')) =
        length (map cutPercent (nextRows members emails cuts))" by simp
next
  fix i assume "i < length (map cutPercent (nextRows members emails cuts'))"
  then have i: "i < length members" by simp
  let ?k = "m_id (members ! i)"
  have k: "?k \<noteq> []" using ne i by simp
  have ci: "cuts' ! i \<in> set cuts'" using i len by simp
  have bi: "band_member_id (cuts' ! i) = Some ?k"
    using ov i by (simp add: nextRows_bandMemberId)
  from page_cutByMemberId_Some[OF k ci bi] obtain c
    where c: "page_cutByMemberId cuts' ?k = Some c" by blast
  from page_cutByMemberId_SomeD[OF c] have cs: "c \<in> set cuts'" and bc: "band_member_id c = Some ?k"
    by simp_all
  from cs obtain j where j: "j < length cuts'" "c = cuts' ! j" by (auto simp: in_set_conv_nth)
  then have jl: "j < length members" using len by simp
  have "band_member_id (cuts' ! j) = Some (m_id (members ! j))"
    using ov jl by (simp add: nextRows_bandMemberId)
  with bc j have "m_id (members ! j) = m_id (members ! i)" by simp
  then have "map m_id members ! j = map m_id members ! i" using i jl by simp
  moreover have "j < length (map m_id members)" "i < length (map m_id members)"
    using i jl by simp_all
  ultimately have "j = i" using d by (simp only: nth_eq_iff_index_eq)
  with j ov i have "cut_percent c = Some (cutPercent (nextRows members emails cuts ! i))" by simp
  then have "cut_value c = cutPercent (nextRows members emails cuts ! i)"
    by (simp add: cut_value_def)
  then have "cutPercent (nextRows members emails cuts' ! i) = cutPercent (nextRows members emails cuts ! i)"
    using i by (simp add: nth_nextRows[of i members emails cuts'] page_row_cutPercent c)
  then show "map cutPercent (nextRows members emails cuts') ! i =
             map cutPercent (nextRows members emails cuts) ! i"
    using i by simp
qed

lemma loadPage_rows_cong:
  assumes "map cutPercent (nextRows members emails cuts') = map cutPercent (nextRows members emails cuts)"
  shows "map cutPercent (rows (loadPage user finance members emails entries cuts' s0)) =
         map cutPercent (rows (loadPage user finance members emails entries cuts s0))"
  using assms by (simp add: loadPage_def Let_def split: option.splits)

lemma loadPage_figures_cuts:
  "page_figures (loadPage user finance members emails entries cuts' s0) =
   page_figures (loadPage user finance members emails entries cuts s0)"
  by (simp add: loadPage_def page_figures_def Let_def split: option.splits)

lemma page_payouts_map:
  "page_payouts s = map (payoutCents (distributableNetCents (page_figures s))) (map cutPercent (rows s))"
  by (simp add: page_payouts_def comp_def)

text \<open>
  Claim C8. Take the percentages the page shows for a tour and store them as the
  explicit cuts of the same members (any record that carries the member's id and the
  percentage in \<open>cut_percent\<close>). Loading the page again, with everything else
  unchanged, shows the same percentages and the same payouts. Members are rows of the
  data store: their ids are distinct and not empty.
\<close>

theorem overrides_round_trip:
  assumes "distinct (map m_id members)"
    and "\<forall>m\<in>set members. m_id m \<noteq> []"
    and "length cuts' = length members"
    and "\<forall>i<length members.
           band_member_id (cuts' ! i) = Some (bandMemberId (nextRows members emails cuts ! i)) \<and>
           cut_percent (cuts' ! i) = Some (cutPercent (nextRows members emails cuts ! i))"
  shows "map cutPercent (rows (loadPage user finance members emails entries cuts' s0)) =
           map cutPercent (rows (loadPage user finance members emails entries cuts s0)) \<and>
         page_payouts (loadPage user finance members emails entries cuts' s0) =
           page_payouts (loadPage user finance members emails entries cuts s0)"
proof -
  have r: "map cutPercent (rows (loadPage user finance members emails entries cuts' s0)) =
           map cutPercent (rows (loadPage user finance members emails entries cuts s0))"
    by (rule loadPage_rows_cong) (rule nextRows_round_trip[OF assms])
  then show ?thesis
    by (simp only: page_payouts_map loadPage_figures_cuts[of user finance members emails entries cuts' s0 cuts])
qed

lemma nextRows_two_members:
  "map cutPercent (nextRows
      [\<lparr>m_id = ''a'', m_user_id = ''ua'', m_member_name = ''Ann'', m_role = Owner\<rparr>,
       \<lparr>m_id = ''b'', m_user_id = ''ub'', m_member_name = ''Bob'', m_role = Member\<rparr>]
      Map.empty []) = [Fin 50, Fin 50]"
proof -
  have len: "length [\<lparr>m_id = ''a'', m_user_id = ''ua'', m_member_name = ''Ann'', m_role = Owner\<rparr>,
       \<lparr>m_id = ''b'', m_user_id = ''ub'', m_member_name = ''Bob'', m_role = Member\<rparr>] = 2" by simp
  show ?thesis
    unfolding nextRows_def len makeEqualSplits_2
    by (simp add: page_row_def split_at_def enumerate_eq_zip upt_rec[of 0] upt_rec[of 1])
qed

theorem overrides_round_trip_witness:
  "distinct (map m_id
      [\<lparr>m_id = ''a'', m_user_id = ''ua'', m_member_name = ''Ann'', m_role = Owner\<rparr>,
       \<lparr>m_id = ''b'', m_user_id = ''ub'', m_member_name = ''Bob'', m_role = Member\<rparr>]) \<and>
   map cutPercent (rows (loadPage ''ua'' None
      [\<lparr>m_id = ''a'', m_user_id = ''ua'', m_member_name = ''Ann'', m_role = Owner\<rparr>,
       \<lparr>m_id = ''b'', m_user_id = ''ub'', m_member_name = ''Bob'', m_role = Member\<rparr>]
      Map.empty [\<lparr>l_entry_type = Income, amount_cents = Fin 58501\<rparr>]
      [\<lparr>c_id = ''c1'', band_member_id = Some ''a'', cut_percent = Some (Fin 50), percent = None\<rparr>,
       \<lparr>c_id = ''c2'', band_member_id = Some ''b'', cut_percent = Some (Fin 50), percent = None\<rparr>]
      (initial_state (Some ''t1'')))) = [Fin 50, Fin 50] \<and>
   page_payouts (loadPage ''ua'' None
      [\<lparr>m_id = ''a'', m_user_id = ''ua'', m_member_name = ''Ann'', m_role = Owner\<rparr>,
       \<lparr>m_id = ''b'', m_user_id = ''ub'', m_member_name = ''Bob'', m_role = Member\<rparr>]
      Map.empty [\<lparr>l_entry_type = Income, amount_cents = Fin 58501\<rparr>]
      [\<lparr>c_id = ''c1'', band_member_id = Some ''a'', cut_percent = Some (Fin 50), percent = None\<rparr>,
       \<lparr>c_id = ''c2'', band_member_id = Some ''b'', cut_percent = Some (Fin 50), percent = None\<rparr>]
      (initial_state (Some ''t1''))) =
   page_payouts (loadPage ''ua'' None
      [\<lparr>m_id = ''a'', m_user_id = ''ua'', m_member_name = ''Ann'', m_role = Owner\<rparr>,
       \<lparr>m_id = ''b'', m_user_id = ''ub'', m_member_name = ''Bob'', m_role = Member\<rparr>]
      Map.empty [\<lparr>l_entry_type = Income, amount_cents = Fin 58501\<rparr>]
      [] (initial_state (Some ''t1'')))"
proof -
  let ?ms = "[\<lparr>m_id = ''a'', m_user_id = ''ua'', m_member_name = ''Ann'', m_role = Owner\<rparr>,
       \<lparr>m_id = ''b'', m_user_id = ''ub'', m_member_name = ''Bob'', m_role = Member\<rparr>]"
  let ?cuts' = "[\<lparr>c_id = ''c1'', band_member_id = Some ''a'', cut_percent = Some (Fin 50), percent = None\<rparr>,
       \<lparr>c_id = ''c2'', band_member_id = Some ''b'', cut_percent = Some (Fin 50), percent = None\<rparr>]"
  let ?es = "[\<lparr>l_entry_type = Income, amount_cents = Fin 58501\<rparr>]"
  have h1: "distinct (map m_id ?ms)" by simp
  have h2: "\<forall>m\<in>set ?ms. m_id m \<noteq> []" by simp
  have h3: "length ?cuts' = length ?ms" by simp
  have n: "map cutPercent (nextRows ?ms Map.empty []) ! i = cutPercent (nextRows ?ms Map.empty [] ! i)"
    if "i < 2" for i using that by (intro nth_map) simp
  have c0: "cutPercent (nextRows ?ms Map.empty [] ! 0) = Fin 50"
    using n[of 0] by (simp add: nextRows_two_members)
  have c1: "cutPercent (nextRows ?ms Map.empty [] ! 1) = Fin 50"
    using n[of 1] by (simp add: nextRows_two_members)
  have b0: "bandMemberId (nextRows ?ms Map.empty [] ! 0) = ''a''"
    using nextRows_bandMemberId[of 0 ?ms Map.empty "[]"] by simp
  have b1: "bandMemberId (nextRows ?ms Map.empty [] ! 1) = ''b''"
    using nextRows_bandMemberId[of 1 ?ms Map.empty "[]"] by simp
  have h4: "\<forall>i<length ?ms.
           band_member_id (?cuts' ! i) = Some (bandMemberId (nextRows ?ms Map.empty [] ! i)) \<and>
           cut_percent (?cuts' ! i) = Some (cutPercent (nextRows ?ms Map.empty [] ! i))"
  proof (intro allI impI)
    fix i assume "i < length ?ms"
    then have "i = 0 \<or> i = 1" by auto
    then show "band_member_id (?cuts' ! i) = Some (bandMemberId (nextRows ?ms Map.empty [] ! i)) \<and>
           cut_percent (?cuts' ! i) = Some (cutPercent (nextRows ?ms Map.empty [] ! i))"
      using c0 c1 b0 b1 by auto
  qed
  note rt = overrides_round_trip[OF h1 h2 h3 h4, of "''ua''" None ?es "initial_state (Some ''t1'')"]
  have "map cutPercent (rows (loadPage ''ua'' None ?ms Map.empty ?es [] (initial_state (Some ''t1'')))) =
          [Fin 50, Fin 50]"
    by (simp add: loadPage_def Let_def nextRows_two_members)
  with rt have r: "map cutPercent (rows (loadPage ''ua'' None ?ms Map.empty ?es ?cuts'
                     (initial_state (Some ''t1'')))) = [Fin 50, Fin 50]"
    by (simp only:)
  from rt have p: "page_payouts (loadPage ''ua'' None ?ms Map.empty ?es ?cuts' (initial_state (Some ''t1''))) =
     page_payouts (loadPage ''ua'' None ?ms Map.empty ?es [] (initial_state (Some ''t1'')))"
    by (rule conjunct2)
  show ?thesis by (rule conjI[OF h1 conjI[OF r p]])
qed

section \<open>Saving the cuts\<close>

lemmas cuts_eval = js_eval totalCuts_def cutsValid_def round2_def Number_EPSILON_def lit_def
  js_sub_def










section \<open>The equal split\<close>

lemma replicate_update_last:
  "0 < n \<Longrightarrow> (replicate n x)[n - 1 := y] = replicate (n - 1) x @ [y]"
proof -
  assume "0 < n"
  then obtain k where n: "n = Suc k" by (cases n) simp_all
  have "(replicate k x @ [x])[length (replicate k x) := y] = replicate k x @ [y]"
    by (simp only: list_update_length)
  then show ?thesis by (simp add: n replicate_append_same)
qed

lemma replicate_update_last_Suc:
  "0 < n \<Longrightarrow> (replicate n x)[n - Suc 0 := y] = replicate (n - Suc 0) x @ [y]"
  using replicate_update_last[of n x y] by simp

lemmas split_eval = js_eval round2_def Number_EPSILON_def makeEqualSplits_def js_sub_def lit_def
  eval_nat_numeral

lemma length_makeEqualSplits [simp]: "length (makeEqualSplits n) = n"
  by (simp add: makeEqualSplits_def Let_def)

lemma nextRows_no_cuts:
  "map cutPercent (nextRows members emails []) = makeEqualSplits (length members)"
proof (rule nth_equalityI)
  show "length (map cutPercent (nextRows members emails [])) = length (makeEqualSplits (length members))"
    by simp
next
  fix i assume "i < length (map cutPercent (nextRows members emails []))"
  then have i: "i < length members" by simp
  then show "map cutPercent (nextRows members emails []) ! i = makeEqualSplits (length members) ! i"
    by (simp add: nth_nextRows page_row_cutPercent split_at_def)
qed

section \<open>Rounding at ties\<close>

text \<open>
  Claim C1. The figures of the specification's example are those of the page. But the fee
  is not always the exact product rounded half up: the page (and the export) round
  \<open>income * (percent / 100)\<close> as computed in binary64, where \<open>percent / 100\<close> is already
  rounded. With 3.50 of income and 35 percent the exact fee is 122.5 minor units, to be
  rounded up to 123; the computed product is 122.49999999999999 and the fee is 122.
\<close>

theorem manager_fee_tie_rounded_down:
  "page_settlement (Fin 100000) (Fin 20000) (Fin 10) (Fin 10) (Fin 5) =
     \<lparr>managerFeeCents = Fin 10000, agentFeeCents = Fin 5000, grossFeesCents = Fin 15000,
      netAfterFeesAndExpensesCents = Fin 65000, savingsAmountCents = Fin 6500,
      distributableNetCents = Fin 58500\<rparr> \<and>
   managerFeeCents (page_settlement (Fin 350) (Fin 0) (Fin 0) (Fin 35) (Fin 0)) = Fin 122 \<and>
   managerFeeCents (export_settlement (Fin 350) (Fin 0)
      (Some \<lparr>savings_percent = None, manager_percent = Some (Fin 35), agent_percent = None\<rparr>)) =
     Fin 122 \<and>
   js_mul (Fin 350) (js_div (Fin 35) (Fin 100)) = Fin (8620171161763839 / 70368744177664) \<and>
   round_half_up (350 * 35 / 100) = 123"
  by (simp add: spec_example export_settlement_eq setting_def page_settlement_simps js_eval
        round_half_up_def)

text \<open>
  Claim C4. \<open>Math.round\<close> rounds half up, but its argument is a binary64 product, so a
  payout of 35 percent of 3.50 is 122 and not 123. \<open>round2\<close> adds \<open>Number.EPSILON\<close>
  before it scales by 100: this turns 1.005 into 1.01, but leaves 2.135 at 2.13, and
  \<open>-2.075\<close> at \<open>-2.08\<close>, where rounding the decimal half up gives 2.14 and \<open>-2.07\<close>.
  (The binary64 values of 1.005 and of 2.135 both lie below the decimal, so rounding
  their exact values half up would give 1.00 and 2.13: neither reading makes all of these
  results rounding half up.)
\<close>

theorem round2_tie_not_rounded_up:
  "round2 (lit (1005 / 1000)) = lit (101 / 100) \<and>
   round2 (lit (2135 / 1000)) = lit (213 / 100) \<and>
   round2 (lit (- 2075 / 1000)) = lit (- 208 / 100) \<and>
   round_half_up2 (1005 / 1000) = 101 / 100 \<and>
   round_half_up2 (2135 / 1000) = 214 / 100 \<and>
   round_half_up2 (- 2075 / 1000) = - 207 / 100 \<and>
   js_lt (lit (1005 / 1000)) (Fin (1005 / 1000)) \<and>
   js_lt (lit (2135 / 1000)) (Fin (2135 / 1000)) \<and>
   payoutCents (Fin 350) (Fin 35) = Fin 122 \<and>
   round_half_up (350 * 35 / 100) = 123"
  by (simp add: cuts_eval payoutCents_def round_half_up_def round_half_up2_def)

section \<open>Relative error of a rounding\<close>

lemma fl_pos_rel_err:
  assumes x: "0 < x" and xk: "x \<le> 2 powi 1023"
  shows "\<exists>y. fl_pos x = Fin y \<and> 0 \<le> y \<and> \<bar>y - x\<bar> \<le> x / 2 ^ 53 + 2 powi (- 1075)"
proof -
  define e where "e = max (ilog2 x) (- 1022)"
  define q where "q = (2::rat) powi (e - 52)"
  define y where "y = of_int (round_half_even (x / q)) * q"
  note c = fl_pos_cases[OF x, folded e_def, folded q_def, folded y_def]
  have e1023: "e \<le> 1023" using ilog2_le[OF x xk] by (simp add: e_def)
  have q2: "q / 2 = 2 powi (e - 53)" by (simp add: q_def power_int_diff)
  have "q / 2 \<le> x / 2 ^ 53 + 2 powi (- 1075)"
  proof (cases "- 1022 \<le> ilog2 x")
    case True
    then have "e = ilog2 x" by (simp add: e_def)
    then have "2 powi e \<le> x" using ilog2_bounds(1)[OF x] by simp
    then have "2 powi e / 2 ^ 53 \<le> x / 2 ^ 53" by (simp add: divide_right_mono)
    moreover have "(2::rat) powi e / 2 powi 53 = 2 powi (e - 53)" by (rule powi_diff_eq) simp
    ultimately have "q / 2 \<le> x / 2 ^ 53" by (simp add: q2)
    moreover have "(0::rat) \<le> 2 powi (- 1075)" by simp
    ultimately show ?thesis by linarith
  next
    case False
    then have "e = - 1022" by (simp add: e_def)
    then have "q / 2 = 2 powi (- 1075)" by (simp add: q2)
    moreover have "0 \<le> x / 2 ^ 53" using x by simp
    ultimately show ?thesis by linarith
  qed
  with c(2) have err: "\<bar>y - x\<bar> \<le> x / 2 ^ 53 + 2 powi (- 1075)" by linarith
  have qle: "q / 2 \<le> 2 powi 970" unfolding q2 using e1023 by (intro powi_mono) simp
  have "y \<le> x + q / 2" using c(2) by linarith
  then have "y \<le> 2 powi 1023 + 2 powi 970" using xk qle by linarith
  moreover have "(2::rat) powi 970 < 2 powi 1023" by (intro powi_strict_mono) simp
  moreover have "(2::rat) powi 1024 = 2 * 2 powi 1023"
  proof -
    have "(1024::int) = 1023 + 1" by simp
    then show ?thesis by (simp only: powi_succ)
  qed
  ultimately have "y < 2 powi 1024" by linarith
  with c(1) have "fl_pos x = Fin y" by simp
  with c(3) err show ?thesis by blast
qed

lemma fl_rel_err:
  assumes xk: "\<bar>x\<bar> \<le> 2 powi 1023"
  shows "\<exists>y. fl x = Fin y \<and> \<bar>y - x\<bar> \<le> \<bar>x\<bar> / 2 ^ 53 + 2 powi (- 1075)"
proof -
  consider "x = 0" | "0 < x" | "x < 0" by linarith
  then show ?thesis
  proof cases
    case 1
    then show ?thesis by (simp add: fl_def)
  next
    case 2
    with xk have "x \<le> 2 powi 1023" by simp
    from fl_pos_rel_err[OF 2 this] 2 show ?thesis by (auto simp: fl_def)
  next
    case 3
    then have p: "0 < - x" by simp
    from xk 3 have "- x \<le> 2 powi 1023" by simp
    from fl_pos_rel_err[OF p this] obtain y
      where y: "fl_pos (- x) = Fin y" "\<bar>y - (- x)\<bar> \<le> (- x) / 2 ^ 53 + 2 powi (- 1075)" by blast
    have "\<bar>- y - x\<bar> = \<bar>y - (- x)\<bar>" by (simp add: abs_minus_commute)
    with y 3 show ?thesis by (auto simp: fl_def)
  qed
qed

text \<open>In the range of the percentages and amounts of a settlement: one unit is \<open>2 ^ 53\<close>.\<close>

lemma fl_err_small:
  assumes "\<bar>x\<bar> \<le> b" and "b \<le> 2 ^ 60"
  shows "\<exists>y. fl x = Fin y \<and> \<bar>y - x\<bar> \<le> b / 2 ^ 53 + 1 / 2 ^ 60"
proof -
  have "(2::rat) powi 60 \<le> 2 powi 1023" by (intro powi_mono) simp
  moreover have "(2::rat) powi 60 = 2 ^ 60" by simp
  ultimately have "(2::rat) ^ 60 \<le> 2 powi 1023" by (simp only:)
  with assms have "\<bar>x\<bar> \<le> 2 powi 1023" by linarith
  from fl_rel_err[OF this] obtain y
    where y: "fl x = Fin y" "\<bar>y - x\<bar> \<le> \<bar>x\<bar> / 2 ^ 53 + 2 powi (- 1075)" by blast
  have "\<bar>x\<bar> / 2 ^ 53 \<le> b / 2 ^ 53" using assms(1) by (simp add: divide_right_mono)
  moreover have "(2::rat) powi (- 1075) \<le> 2 powi (- 60)" by (intro powi_mono) simp
  moreover have "(2::rat) powi (- 60) = 1 / 2 ^ 60" by (simp add: power_int_minus_divide)
  ultimately have "\<bar>y - x\<bar> \<le> b / 2 ^ 53 + 1 / 2 ^ 60" using y(2) by linarith
  with y(1) show ?thesis by blast
qed

section \<open>The payouts of a tour\<close>

lemma Math_round_err: "\<bar>of_int \<lfloor>y + 1 / 2\<rfloor> - y\<bar> \<le> (1 / 2 :: rat)"
proof -
  have "of_int \<lfloor>y + 1 / 2\<rfloor> \<le> y + 1 / 2" "y + 1 / 2 < of_int \<lfloor>y + 1 / 2\<rfloor> + 1" by linarith+
  then show ?thesis by linarith
qed

lemma payout_item:
  fixes d :: int and \<pi> :: rat
  assumes d: "\<bar>d\<bar> \<le> 2 ^ 50" and pi: "\<bar>\<pi>\<bar> \<le> 100"
  shows "\<exists>r. payoutCents (Fin (of_int d)) (lit \<pi>) = Fin (of_int r) \<and>
             \<bar>of_int r - of_int d * \<pi> / 100\<bar> \<le> 9 / 10"
proof -
  define u :: rat where "u = 1 / 2 ^ 53"
  define h :: rat where "h = 1 / 2 ^ 60"
  have u: "0 < u" "u \<le> 1 / 1000000" and h: "0 < h" "h \<le> u / 100" "h * 2 ^ 50 \<le> 1 / 1000"
    by (simp_all add: u_def h_def)
  have u50: "u * 2 ^ 50 = 1 / 8" by (simp add: u_def)
  from fl_err_small[of \<pi> 100] pi obtain p
    where p: "fl \<pi> = Fin p" "\<bar>p - \<pi>\<bar> \<le> 100 * u + h" by (auto simp: u_def h_def)
  have pb: "\<bar>p / 100\<bar> \<le> 101 / 100" using p(2) pi u h by linarith
  from fl_err_small[of "p / 100" "101 / 100"] pb obtain f
    where f: "fl (p / 100) = Fin f" "\<bar>f - p / 100\<bar> \<le> 101 / 100 * u + h"
    by (auto simp: u_def h_def)
  have fe: "\<bar>f - \<pi> / 100\<bar> \<le> 203 / 100 * u" using f(2) p(2) u h by linarith
  have fb: "\<bar>f\<bar> \<le> 101 / 100" using fe pi u by linarith
  have dr: "\<bar>of_int d :: rat\<bar> \<le> 2 ^ 50"
  proof -
    have "(of_int \<bar>d\<bar> :: rat) \<le> of_int (2 ^ 50)" using d by (simp only: of_int_le_iff)
    then show ?thesis by simp
  qed
  have "\<bar>of_int d * f\<bar> = \<bar>of_int d\<bar> * \<bar>f\<bar>" by (rule abs_mult)
  also have "\<dots> \<le> 2 ^ 50 * (101 / 100)" using dr fb by (intro mult_mono) simp_all
  finally have dfb: "\<bar>of_int d * f\<bar> \<le> 2 ^ 50 * (101 / 100)" .
  from fl_err_small[of "of_int d * f" "2 ^ 50 * (101 / 100)"] dfb obtain y
    where y: "fl (of_int d * f) = Fin y"
      "\<bar>y - of_int d * f\<bar> \<le> 2 ^ 50 * (101 / 100) * u + h"
    by (auto simp: u_def h_def)
  have "\<bar>of_int d * f - of_int d * \<pi> / 100\<bar> = \<bar>of_int d\<bar> * \<bar>f - \<pi> / 100\<bar>"
    by (simp add: abs_mult[symmetric] right_diff_distrib)
  also have "\<dots> \<le> 2 ^ 50 * (203 / 100 * u)" using dr fe by (intro mult_mono) simp_all
  finally have de: "\<bar>of_int d * f - of_int d * \<pi> / 100\<bar> \<le> 203 / 800" using u50 by simp
  have ye: "\<bar>y - of_int d * f\<bar> \<le> 101 / 800 + h" using y(2) u50 by simp
  have "\<bar>y - of_int d * \<pi> / 100\<bar> \<le> 101 / 800 + h + 203 / 800" using de ye by linarith
  moreover have "h \<le> 1 / 1000" using h u by linarith
  moreover note Math_round_err[of y]
  ultimately have "\<bar>of_int \<lfloor>y + 1 / 2\<rfloor> - of_int d * \<pi> / 100\<bar> \<le> 9 / 10" by linarith
  moreover have "payoutCents (Fin (of_int d)) (lit \<pi>) = Fin (of_int \<lfloor>y + 1 / 2\<rfloor>)"
  proof -
    have "js_div (lit \<pi>) (Fin 100) = Fin f"
    proof (cases "p / 100 = 0")
      case True
      then show ?thesis using f(1) by (simp add: lit_def p(1))
    next
      case False
      then show ?thesis using f(1) by (simp add: lit_def p(1))
    qed
    then show ?thesis by (simp add: payoutCents_def y(1))
  qed
  ultimately show ?thesis by blast
qed

lemma payouts_sum_err:
  fixes d :: int and \<pi>s :: "rat list"
  assumes d: "\<bar>d\<bar> \<le> 2 ^ 50" and pi: "\<forall>\<pi>\<in>set \<pi>s. \<bar>\<pi>\<bar> \<le> 100"
  shows "\<exists>rs. map (\<lambda>\<pi>. payoutCents (Fin (of_int d)) (lit \<pi>)) \<pi>s = map (\<lambda>r. Fin (of_int r)) rs \<and>
              \<bar>of_int (sum_list rs) - of_int d * sum_list \<pi>s / 100\<bar> \<le> 9 / 10 * of_nat (length \<pi>s)"
  using pi
proof (induction \<pi>s)
  case Nil
  have "map (\<lambda>\<pi>. payoutCents (Fin (of_int d)) (lit \<pi>)) [] = map (\<lambda>r. Fin (of_int r)) [] \<and>
        \<bar>of_int (sum_list []) - of_int d * sum_list [] / 100\<bar> \<le> (9 / 10 * of_nat (length ([]::rat list)) :: rat)"
    by simp
  then show ?case by blast
next
  case (Cons \<pi> \<pi>s)
  then obtain rs where rs:
    "map (\<lambda>\<pi>. payoutCents (Fin (of_int d)) (lit \<pi>)) \<pi>s = map (\<lambda>r. Fin (of_int r)) rs"
    "\<bar>of_int (sum_list rs) - of_int d * sum_list \<pi>s / 100\<bar> \<le> 9 / 10 * of_nat (length \<pi>s)"
    by auto
  from Cons.prems have "\<bar>\<pi>\<bar> \<le> 100" by simp
  from payout_item[OF d this] obtain r where r:
    "payoutCents (Fin (of_int d)) (lit \<pi>) = Fin (of_int r)"
    "\<bar>of_int r - of_int d * \<pi> / 100\<bar> \<le> 9 / 10" by blast
  have m: "map (\<lambda>\<pi>. payoutCents (Fin (of_int d)) (lit \<pi>)) (\<pi> # \<pi>s) = map (\<lambda>r. Fin (of_int r)) (r # rs)"
    using r(1) rs(1) by simp
  have "(of_int (sum_list (r # rs)) :: rat) - of_int d * sum_list (\<pi> # \<pi>s) / 100 =
          (of_int r - of_int d * \<pi> / 100) + (of_int (sum_list rs) - of_int d * sum_list \<pi>s / 100)"
    by (simp add: algebra_simps add_divide_distrib)
  then have "\<bar>(of_int (sum_list (r # rs)) :: rat) - of_int d * sum_list (\<pi> # \<pi>s) / 100\<bar> \<le>
          9 / 10 + 9 / 10 * of_nat (length \<pi>s)"
    using r(2) rs(2) by linarith
  then have "\<bar>(of_int (sum_list (r # rs)) :: rat) - of_int d * sum_list (\<pi> # \<pi>s) / 100\<bar> \<le>
          9 / 10 * of_nat (length (\<pi> # \<pi>s))"
    by (simp add: algebra_simps)
  with m show ?case by blast
qed

text \<open>
  Claim C3, with the range in which it holds. The percentages are the binary64 values
  of rational percentages between \<open>-100\<close> and 100 that add up to exactly 100 (as the two-decimal
  percentages of the data store and of \<open>round2\<close> are), and the distributable net is an
  integer of at most \<open>2 ^ 50\<close> minor units in absolute value. Then every payout is an
  integer and their sum differs from the distributable net by at most the number of
  members minus one.
\<close>

theorem payouts_sum_within_slack:
  fixes d :: int and \<pi>s :: "rat list"
  assumes "\<bar>d\<bar> \<le> 2 ^ 50" and "\<forall>\<pi>\<in>set \<pi>s. \<bar>\<pi>\<bar> \<le> 100" and "sum_list \<pi>s = 100"
  shows "\<exists>rs. map (\<lambda>\<pi>. payoutCents (Fin (of_int d)) (lit \<pi>)) \<pi>s = map (\<lambda>r. Fin (of_int r)) rs \<and>
              \<bar>sum_list rs - d\<bar> \<le> int (length \<pi>s) - 1"
proof -
  from payouts_sum_err[OF assms(1,2)] obtain rs where rs:
    "map (\<lambda>\<pi>. payoutCents (Fin (of_int d)) (lit \<pi>)) \<pi>s = map (\<lambda>r. Fin (of_int r)) rs"
    "\<bar>of_int (sum_list rs) - of_int d * sum_list \<pi>s / 100\<bar> \<le> 9 / 10 * of_nat (length \<pi>s)"
    by blast
  have ne: "\<pi>s \<noteq> []" using assms(3) by auto
  then have n: "0 < length \<pi>s" by simp
  have "(of_int \<bar>sum_list rs - d\<bar> :: rat) = \<bar>of_int (sum_list rs) - of_int d * sum_list \<pi>s / 100\<bar>"
    by (simp add: assms(3))
  also have "\<dots> \<le> 9 / 10 * of_nat (length \<pi>s)" by (rule rs(2))
  also have "\<dots> < of_nat (length \<pi>s)" using n by simp
  finally have "(of_int \<bar>sum_list rs - d\<bar> :: rat) < of_int (int (length \<pi>s))" by simp
  then have "\<bar>sum_list rs - d\<bar> < int (length \<pi>s)" by (simp only: of_int_less_iff)
  then have "\<bar>sum_list rs - d\<bar> \<le> int (length \<pi>s) - 1" by simp
  with rs(1) show ?thesis by blast
qed

text \<open>
  Claim C3 as stated fails for large amounts: with 33.74 and 66.26 percent of
  5789724636034393 minor units (below \<open>2 ^ 53\<close>) the two payouts add up to two units more
  than the distributable net, where one unit of slack is allowed.
\<close>

theorem payouts_sum_exceeds_slack:
  "payoutCents (Fin 5789724636034393) (lit (3374 / 100)) = Fin 1953453092198005 \<and>
   payoutCents (Fin 5789724636034393) (lit (6626 / 100)) = Fin 3836271543836390 \<and>
   sum_list [3374 / 100, 6626 / 100] = (100::rat) \<and>
   \<not> \<bar>(1953453092198005 + 3836271543836390) - 5789724636034393\<bar> \<le> int (length [3374 / 100, 6626 / 100 :: rat]) - 1"
  by (simp add: payoutCents_def lit_def js_eval)

lemma payouts_58500:
  "map (\<lambda>\<pi>. payoutCents (Fin (of_int 58500)) (lit \<pi>)) [3333 / 100, 3333 / 100, 3334 / 100] =
     map (\<lambda>r. Fin (of_int r)) [19498, 19498, 19504]"
  by (simp add: payoutCents_def lit_def js_eval)

theorem payouts_sum_within_slack_witness:
  "\<bar>58500 :: int\<bar> \<le> 2 ^ 50 \<and> sum_list [3333 / 100, 3333 / 100, 3334 / 100] = (100::rat) \<and>
   map (\<lambda>\<pi>. payoutCents (Fin (of_int 58500)) (lit \<pi>)) [3333 / 100, 3333 / 100, 3334 / 100] =
     map (\<lambda>r. Fin (of_int r)) [19498, 19498, 19504] \<and>
   \<bar>sum_list [19498, 19498, 19504] - (58500::int)\<bar> \<le> int (length [3333 / 100, 3333 / 100, 3334 / 100 :: rat]) - 1"
proof -
  have h1: "\<bar>58500 :: int\<bar> \<le> 2 ^ 50" by simp
  have h2: "\<forall>\<pi>\<in>set [3333 / 100, 3333 / 100, 3334 / 100 :: rat]. \<bar>\<pi>\<bar> \<le> 100" by simp
  have h3: "sum_list [3333 / 100, 3333 / 100, 3334 / 100] = (100::rat)" by simp
  from payouts_sum_within_slack[OF h1 h2 h3] obtain rs where rs:
    "map (\<lambda>\<pi>. payoutCents (Fin (of_int 58500)) (lit \<pi>)) [3333 / 100, 3333 / 100, 3334 / 100] =
       map (\<lambda>r. Fin (of_int r)) rs"
    "\<bar>sum_list rs - 58500\<bar> \<le> int (length [3333 / 100, 3333 / 100, 3334 / 100 :: rat]) - 1"
    by blast
  from rs(1) have "map (\<lambda>r. Fin (of_int r)) rs = map (\<lambda>r. Fin (of_int r)) [19498, 19498, 19504 :: int]"
    by (simp only: payouts_58500)
  moreover have "inj (\<lambda>r::int. Fin (of_int r))" by (simp add: inj_def)
  ultimately have "rs = [19498, 19498, 19504]" by (simp only: inj_map_eq_map)
  with rs(2) have "\<bar>sum_list [19498, 19498, 19504] - (58500::int)\<bar> \<le>
      int (length [3333 / 100, 3333 / 100, 3334 / 100 :: rat]) - 1" by (simp only:)
  with h1 h3 payouts_58500 show ?thesis by blast
qed

section \<open>The equal split adds up to 100.00\<close>

lemma lit_err:
  assumes "\<bar>d\<bar> \<le> b" and "b \<le> 2 ^ 60"
  shows "\<exists>v. lit d = Fin v \<and> \<bar>v - d\<bar> \<le> b / 2 ^ 53 + 1 / 2 ^ 60"
  unfolding lit_def using assms by (rule fl_err_small)

lemma js_div_100: "js_div (Fin x) (Fin 100) = lit (x / 100)"
  by (simp add: lit_def)

lemma round2_near:
  assumes x: "\<bar>x\<bar> \<le> 1000"
  shows "\<exists>k. round2 (Fin x) = lit (of_int k / 100) \<and> \<bar>of_int k - 100 * x\<bar> \<le> 1 / 2 + 1 / 1000000000"
proof -
  define u :: rat where "u = 1 / 2 ^ 53"
  define h :: rat where "h = 1 / 2 ^ 60"
  define ep :: rat where "ep = 2 powi (- 52)"
  have u: "0 < u" "u \<le> 1 / 1000000000000000" and h: "0 < h" "h \<le> u" and ep: "ep = 2 * u"
    by (simp_all add: u_def h_def ep_def power_int_minus_divide)
  have "\<bar>x + ep\<bar> \<le> 1001" using x ep u by linarith
  from fl_err_small[OF this] obtain v
    where v: "fl (x + ep) = Fin v" "\<bar>v - (x + ep)\<bar> \<le> 1001 * u + h" by (auto simp: u_def h_def)
  have "\<bar>v * 100\<bar> \<le> 100200" using v(2) x ep u h by linarith
  from fl_err_small[OF this] obtain w
    where w: "fl (v * 100) = Fin w" "\<bar>w - v * 100\<bar> \<le> 100200 * u + h" by (auto simp: u_def h_def)
  define k where "k = \<lfloor>w + 1 / 2\<rfloor>"
  have kw: "\<bar>of_int k - w\<bar> \<le> 1 / 2" unfolding k_def by (rule Math_round_err)
  have "\<bar>of_int k - 100 * x\<bar> \<le> 1 / 2 + 1 / 1000000000" using kw w(2) v(2) ep u h by linarith
  moreover have "round2 (Fin x) = lit (of_int k / 100)"
  proof -
    have a: "js_add (Fin x) Number_EPSILON = Fin v"
      unfolding Number_EPSILON_def using v(1) by (simp only: js_add.simps ep_def)
    have b: "js_mul (Fin v) (Fin 100) = Fin w" using w(1) by simp
    have c: "Math_round (Fin w) = Fin (of_int k)" by (simp add: k_def)
    show ?thesis by (simp only: round2_def a b c js_div_100)
  qed
  ultimately show ?thesis by blast
qed

lemma round2_snap:
  assumes x: "\<bar>x\<bar> \<le> 1000" and m: "\<bar>x - of_int m / 100\<bar> \<le> 1 / 1000000"
  shows "round2 (Fin x) = lit (of_int m / 100)"
proof -
  from round2_near[OF x] obtain k
    where k: "round2 (Fin x) = lit (of_int k / 100)" "\<bar>of_int k - 100 * x\<bar> \<le> 1 / 2 + 1 / 1000000000"
    by blast
  have "\<bar>(of_int k :: rat) - of_int m\<bar> < 1" using k(2) m by linarith
  then have "\<bar>(of_int (k - m) :: rat)\<bar> < of_int 1" by simp
  then have "\<bar>k - m\<bar> < 1" by (simp only: of_int_abs[symmetric] of_int_less_iff)
  then have "k = m" by simp
  with k(1) show ?thesis by simp
qed

text \<open>Rounding a two-decimal percentage again leaves it as it is.\<close>

lemma round2_two_decimals:
  assumes "\<bar>k\<bar> \<le> 99900"
  shows "round2 (lit (of_int k / 100)) = lit (of_int k / 100)"
proof -
  have "(of_int \<bar>k\<bar> :: rat) \<le> of_int 99900" using assms by (simp only: of_int_le_iff)
  then have "\<bar>of_int k / 100 :: rat\<bar> \<le> 999" by simp
  from lit_err[OF this] obtain v where v:
    "lit (of_int k / 100) = Fin v"
    "\<bar>v - of_int k / 100\<bar> \<le> 999 / 9007199254740992 + 1 / 1152921504606846976"
    by auto
  have m: "\<bar>v - of_int k / 100\<bar> \<le> 1 / 1000000" using v(2) by linarith
  have b: "\<bar>v\<bar> \<le> 1000" using m \<open>\<bar>of_int k / 100 :: rat\<bar> \<le> 999\<close> by linarith
  show ?thesis by (simp only: v(1) round2_snap[OF b m])
qed

lemma makeEqualSplits_append:
  assumes "0 < count"
  shows "makeEqualSplits count =
        replicate (count - 1) (round2 (js_div (Fin 100) (Fin (of_nat count)))) @
        [round2 (js_add (round2 (js_div (Fin 100) (Fin (of_nat count))))
           (round2 (js_sub (Fin 100)
              (foldl js_add (Fin 0)
                 (replicate count (round2 (js_div (Fin 100) (Fin (of_nat count)))))))))]"
  using assms by (simp add: makeEqualSplits_def Let_def replicate_update_last_Suc)

lemma replicate_Suc_snoc: "replicate (Suc n) x = replicate n x @ [x]"
  by (simp add: replicate_append_same)

lemma foldl_js_add_zero: "foldl js_add (Fin 0) (replicate k (Fin 0)) = Fin 0"
proof (induction k)
  case 0
  show ?case by simp
next
  case (Suc k)
  have "foldl js_add (Fin 0) (replicate k (Fin 0) @ [Fin 0]) = Fin 0"
    by (simp add: Suc fl_def)
  then show ?case by (simp only: replicate_Suc_snoc)
qed

lemma foldl_replicate_err:
  fixes \<beta> bv :: rat
  assumes b0: "0 \<le> \<beta>" and bv: "\<bar>bv - \<beta>\<bar> \<le> 102 / 2 ^ 53"
    and nb: "of_nat n * \<beta> \<le> 202" and n: "n \<le> 20000"
  shows "k \<le> n \<Longrightarrow> \<exists>\<sigma>. foldl js_add (Fin 0) (replicate k (Fin bv)) = Fin \<sigma> \<and>
                     \<bar>\<sigma> - of_nat k * \<beta>\<bar> \<le> of_nat k * (400 / 2 ^ 53)"
proof (induction k)
  case 0
  have "foldl js_add (Fin 0) (replicate 0 (Fin bv)) = Fin 0 \<and>
        \<bar>0 - of_nat 0 * \<beta>\<bar> \<le> (of_nat 0 * (400 / 2 ^ 53) :: rat)" by simp
  then show ?case by blast
next
  case (Suc k)
  then have kn: "k \<le> n" and skn: "Suc k \<le> n" by simp_all
  from Suc.IH[OF kn] obtain \<sigma> where s:
    "foldl js_add (Fin 0) (replicate k (Fin bv)) = Fin \<sigma>"
    "\<bar>\<sigma> - of_nat k * \<beta>\<bar> \<le> of_nat k * (400 / 2 ^ 53)" by blast
  have "k \<le> 20000" using kn n by simp
  then have "(of_nat k :: rat) \<le> of_nat 20000" by (simp only: of_nat_le_iff)
  then have K: "(of_nat k :: rat) \<le> 20000" "(0::rat) \<le> of_nat k" by simp_all
  have "(of_nat (Suc k) :: rat) \<le> of_nat n" using skn by (simp only: of_nat_le_iff)
  then have "of_nat (Suc k) * \<beta> \<le> of_nat n * \<beta>" using b0 by (rule mult_right_mono)
  then have sk: "of_nat k * \<beta> + \<beta> \<le> 202" using nb by (simp add: algebra_simps)
  have kb: "0 \<le> of_nat k * \<beta>" using b0 by simp
  have bv': "\<bar>bv - \<beta>\<bar> \<le> 102 / 9007199254740992" using bv by simp
  have s': "\<bar>\<sigma> - of_nat k * \<beta>\<bar> \<le> of_nat k * (400 / 9007199254740992)" using s(2) by simp
  have "\<bar>\<sigma> + bv\<bar> \<le> 203" using s' bv' sk kb K b0 by linarith
  from fl_err_small[OF this] obtain T where T:
    "fl (\<sigma> + bv) = Fin T" "\<bar>T - (\<sigma> + bv)\<bar> \<le> 203 / 9007199254740992 + 1 / 1152921504606846976"
    by auto
  have "\<bar>T - (of_nat k * \<beta> + \<beta>)\<bar> \<le> of_nat k * (400 / 9007199254740992) + 400 / 9007199254740992"
    using T(2) s' bv' by linarith
  then have "\<bar>T - of_nat (Suc k) * \<beta>\<bar> \<le> of_nat (Suc k) * (400 / 2 ^ 53)"
    by (simp add: algebra_simps)
  moreover have "foldl js_add (Fin 0) (replicate (Suc k) (Fin bv)) = Fin T"
  proof -
    have "foldl js_add (Fin 0) (replicate k (Fin bv) @ [Fin bv]) = Fin T"
      by (simp add: s(1) T(1))
    then show ?thesis by (simp only: replicate_Suc_snoc)
  qed
  ultimately show ?case by blast
qed

lemma lit_0: "lit 0 = Fin 0"
  by (simp add: lit_def fl_def)

lemma lit_100: "lit 100 = Fin 100"
  by (simp add: lit_def js_eval)

lemma round2_100: "round2 (Fin 100) = Fin 100"
  by (simp add: round2_def Number_EPSILON_def js_eval)

lemma js_sub_Fin: "js_sub (Fin a) (Fin b) = fl (a - b)"
  by (simp add: js_sub_def)

lemma equal_split_large:
  assumes c0: "0 < count" and big: "20000 < count"
    and B0: "round2 (js_div (Fin 100) (Fin (of_nat count))) = Fin 0"
  shows "\<exists>B D. 0 \<le> B \<and> B \<le> 10000 \<and> D = 10000 - int count * B \<and>
           round2 (js_div (Fin 100) (Fin (of_nat count))) = lit (of_int B / 100) \<and>
           round2 (js_sub (Fin 100)
             (foldl js_add (Fin 0) (replicate count (lit (of_int B / 100))))) =
             lit (of_int D / 100) \<and>
           makeEqualSplits count =
             replicate (count - 1) (lit (of_int B / 100)) @ [lit (of_int (B + D) / 100)] \<and>
           round2 (foldl js_add (Fin 0) (makeEqualSplits count)) = Fin 100"
proof -
  have d: "round2 (js_sub (Fin 100) (Fin 0)) = Fin 100"
    by (simp add: js_sub_Fin round2_100 js_eval)
  have l: "round2 (js_add (Fin 0) (Fin 100)) = Fin 100"
    by (simp add: round2_100 js_eval)
  have shape: "makeEqualSplits count = replicate (count - 1) (Fin 0) @ [Fin 100]"
    by (simp only: makeEqualSplits_append[OF c0] B0 foldl_js_add_zero d l)
  have "foldl js_add (Fin 0) (replicate (count - 1) (Fin 0) @ [Fin 100]) = Fin 100"
    by (simp add: foldl_js_add_zero js_eval)
  then have t: "round2 (foldl js_add (Fin 0) (makeEqualSplits count)) = Fin 100"
    by (simp only: shape round2_100)
  define B :: int where "B = 0"
  define D :: int where "D = 10000 - int count * B"
  have D: "D = 10000" by (simp add: D_def B_def)
  have lb: "lit (of_int B / 100) = Fin 0" by (simp add: B_def lit_0)
  have ld: "lit (of_int D / 100) = Fin 100" by (simp add: D lit_100)
  have ll: "lit (of_int (B + D) / 100) = Fin 100" by (simp add: D B_def lit_100)
  have 1: "0 \<le> B" and 2: "B \<le> 10000" by (simp_all add: B_def)
  have 4: "round2 (js_div (Fin 100) (Fin (of_nat count))) = lit (of_int B / 100)"
    by (simp only: B0 lb)
  have 5: "round2 (js_sub (Fin 100)
             (foldl js_add (Fin 0) (replicate count (lit (of_int B / 100))))) =
             lit (of_int D / 100)"
    by (simp only: lb ld foldl_js_add_zero d)
  have 6: "makeEqualSplits count =
             replicate (count - 1) (lit (of_int B / 100)) @ [lit (of_int (B + D) / 100)]"
    by (simp only: shape lb ll)
  from 1 2 D_def 4 5 6 t show ?thesis by blast
qed

lemma equal_split_small:
  fixes B :: int and t :: rat
  assumes c0: "0 < count" and small: "count \<le> 20000"
    and q: "js_div (Fin 100) (Fin (of_nat count)) = Fin t"
    and t: "\<bar>t - 100 / of_nat count\<bar> \<le> 1 / 1000000000"
    and B: "round2 (Fin t) = lit (of_int B / 100)" "\<bar>of_int B - 100 * t\<bar> \<le> 1 / 2 + 1 / 1000000000"
  shows "\<exists>B D. 0 \<le> B \<and> B \<le> 10000 \<and> D = 10000 - int count * B \<and>
           round2 (js_div (Fin 100) (Fin (of_nat count))) = lit (of_int B / 100) \<and>
           round2 (js_sub (Fin 100)
             (foldl js_add (Fin 0) (replicate count (lit (of_int B / 100))))) =
             lit (of_int D / 100) \<and>
           makeEqualSplits count =
             replicate (count - 1) (lit (of_int B / 100)) @ [lit (of_int (B + D) / 100)] \<and>
           round2 (foldl js_add (Fin 0) (makeEqualSplits count)) = Fin 100"
proof -
  define N :: rat where "N = of_nat count"
  define \<beta> :: rat where "\<beta> = of_int B / 100"
  have "1 \<le> count" using c0 by simp
  then have "(of_nat 1 :: rat) \<le> of_nat count" by (simp only: of_nat_le_iff)
  then have N1: "1 \<le> N" by (simp add: N_def)
  have "(of_nat count :: rat) \<le> of_nat 20000" using small by (simp only: of_nat_le_iff)
  then have N2: "N \<le> 20000" by (simp add: N_def)
  have Npos: "0 < N" using N1 by linarith
  have Bb: "of_int B = 100 * \<beta>" by (simp add: \<beta>_def)
  have tN: "\<bar>t - 100 / N\<bar> \<le> 1 / 1000000000" using t by (simp only: N_def)
  have qlo: "1 / 200 \<le> 100 / N" using N2 Npos by (simp add: field_simps)
  have qhi: "100 / N \<le> 100" using N1 Npos by (simp add: field_simps)
  have near: "\<bar>\<beta> - 100 / N\<bar> \<le> 51 / 10000" using B(2) tN Bb by linarith
  have "- 1 < (of_int B :: rat)" using near qlo Bb by linarith
  then have "(of_int (- 1) :: rat) < of_int B" by simp
  then have "- 1 < B" by (simp only: of_int_less_iff)
  then have "0 \<le> B" by simp
  then have b0: "0 \<le> \<beta>" by (simp add: \<beta>_def)
  have "N * \<beta> - 100 = N * (\<beta> - 100 / N)" using Npos by (simp add: field_simps)
  then have "\<bar>N * \<beta> - 100\<bar> = N * \<bar>\<beta> - 100 / N\<bar>" using Npos by (simp add: abs_mult)
  also have "\<dots> \<le> N * (51 / 10000)" using near Npos by (intro mult_left_mono) simp_all
  finally have Nb: "\<bar>N * \<beta> - 100\<bar> \<le> N * (51 / 10000)" .
  have nb: "N * \<beta> \<le> 202" and nbl: "- 2 \<le> N * \<beta>" using Nb N2 by linarith+
  have "\<bar>\<beta>\<bar> \<le> 101" using near qhi qlo by linarith
  from lit_err[OF this] obtain bv where bv:
    "lit \<beta> = Fin bv" "\<bar>bv - \<beta>\<bar> \<le> 101 / 9007199254740992 + 1 / 1152921504606846976"
    by auto
  have bv': "\<bar>bv - \<beta>\<bar> \<le> 102 / 2 ^ 53" using bv(2) by simp
  have bv'': "\<bar>bv - \<beta>\<bar> \<le> 102 / 9007199254740992" using bv' by simp
  have base: "round2 (js_div (Fin 100) (Fin (of_nat count))) = Fin bv"
    by (simp only: q B(1) \<beta>_def[symmetric] bv(1))
  note sums = foldl_replicate_err[OF b0 bv' nb[unfolded N_def] small]
  from sums[of count] obtain \<sigma> where s:
    "foldl js_add (Fin 0) (replicate count (Fin bv)) = Fin \<sigma>"
    "\<bar>\<sigma> - N * \<beta>\<bar> \<le> N * (400 / 9007199254740992)" by (auto simp: N_def)
  define D :: int where "D = 10000 - int count * B"
  have Dd: "of_int D / 100 = 100 - N * \<beta>" by (simp add: D_def N_def \<beta>_def)
  have "\<bar>100 - \<sigma>\<bar> \<le> 303" using s(2) nb nbl N2 Npos by linarith
  from fl_err_small[OF this] obtain z where z:
    "fl (100 - \<sigma>) = Fin z" "\<bar>z - (100 - \<sigma>)\<bar> \<le> 303 / 9007199254740992 + 1 / 1152921504606846976"
    by auto
  have zD: "\<bar>z - of_int D / 100\<bar> \<le> 1 / 1000000" using z(2) s(2) Dd N2 Npos by linarith
  have zb: "\<bar>z\<bar> \<le> 1000" using zD Dd nb nbl by linarith
  have diff: "round2 (js_sub (Fin 100) (Fin \<sigma>)) = lit (of_int D / 100)"
    by (simp only: js_sub_Fin z(1) round2_snap[OF zb zD])
  have "\<bar>of_int D / 100 :: rat\<bar> \<le> 102" using Dd nb nbl by linarith
  from lit_err[OF this] obtain dv where dv:
    "lit (of_int D / 100) = Fin dv"
    "\<bar>dv - of_int D / 100\<bar> \<le> 102 / 9007199254740992 + 1 / 1152921504606846976"
    by auto
  have "\<bar>bv + dv\<bar> \<le> 204" using bv'' dv(2) Dd nb nbl \<open>\<bar>\<beta>\<bar> \<le> 101\<close> by linarith
  from fl_err_small[OF this] obtain x where x:
    "fl (bv + dv) = Fin x" "\<bar>x - (bv + dv)\<bar> \<le> 204 / 9007199254740992 + 1 / 1152921504606846976"
    by auto
  define L :: int where "L = B + D"
  have Ld: "of_int L / 100 = \<beta> + of_int D / 100" by (simp add: L_def \<beta>_def add_divide_distrib)
  have xL: "\<bar>x - of_int L / 100\<bar> \<le> 1 / 1000000" using x(2) bv'' dv(2) Ld by linarith
  have Lb: "\<bar>of_int L / 100 :: rat\<bar> \<le> 204" using Ld Dd nb nbl \<open>\<bar>\<beta>\<bar> \<le> 101\<close> by linarith
  have xb: "\<bar>x\<bar> \<le> 1000" using xL Lb by linarith
  have last: "round2 (js_add (Fin bv) (lit (of_int D / 100))) = lit (of_int L / 100)"
    by (simp only: dv(1) js_add.simps x(1) round2_snap[OF xb xL])
  have shape: "makeEqualSplits count = replicate (count - 1) (lit \<beta>) @ [lit (of_int L / 100)]"
    by (simp only: makeEqualSplits_append[OF c0] base s(1) diff last bv(1))
  from lit_err[OF Lb] obtain lv where lv:
    "lit (of_int L / 100) = Fin lv"
    "\<bar>lv - of_int L / 100\<bar> \<le> 204 / 9007199254740992 + 1 / 1152921504606846976"
    by auto
  from sums[of "count - 1"] obtain \<sigma>' where s':
    "foldl js_add (Fin 0) (replicate (count - 1) (Fin bv)) = Fin \<sigma>'"
    "\<bar>\<sigma>' - of_nat (count - 1) * \<beta>\<bar> \<le> of_nat (count - 1) * (400 / 9007199254740992)" by auto
  have "(of_nat (count - 1) :: rat) = of_nat count - 1" using c0 by (simp add: of_nat_diff)
  then have N': "(of_nat (count - 1) :: rat) = N - 1" by (simp add: N_def)
  define P where "P = (N - 1) * \<beta>"
  have "(N - 1) * (400 / 9007199254740992) \<le> 20000 * (400 / 9007199254740992)"
    using N2 by (intro mult_right_mono) simp_all
  then have e1: "(N - 1) * (400 / 9007199254740992) \<le> 1 / 4000000" by simp
  have s'': "\<bar>\<sigma>' - P\<bar> \<le> 1 / 4000000"
    using s'(2) e1 by (simp only: N' P_def)
  have id: "P + of_int L / 100 = 100" using Ld Dd by (simp add: P_def algebra_simps)
  have sl: "\<bar>\<sigma>' + lv - 100\<bar> \<le> 1 / 2000000" using s'' lv(2) id by linarith
  then have "\<bar>\<sigma>' + lv\<bar> \<le> 101" by linarith
  from fl_err_small[OF this] obtain T where T:
    "fl (\<sigma>' + lv) = Fin T" "\<bar>T - (\<sigma>' + lv)\<bar> \<le> 101 / 9007199254740992 + 1 / 1152921504606846976"
    by auto
  have "\<bar>T - 100\<bar> \<le> 1 / 1000000" using T(2) sl by linarith
  then have Tm: "\<bar>T - of_int 10000 / 100\<bar> \<le> 1 / 1000000" by simp
  have Tb: "\<bar>T\<bar> \<le> 1000" using \<open>\<bar>T - 100\<bar> \<le> 1 / 1000000\<close> by linarith
  have "round2 (Fin T) = lit (of_int 10000 / 100)" using Tb Tm by (rule round2_snap)
  then have rT: "round2 (Fin T) = Fin 100" by (simp add: lit_100)
  have "foldl js_add (Fin 0) (replicate (count - 1) (lit \<beta>) @ [lit (of_int L / 100)]) =
          js_add (foldl js_add (Fin 0) (replicate (count - 1) (lit \<beta>))) (lit (of_int L / 100))"
    by simp
  also have "\<dots> = Fin T" by (simp only: bv(1) lv(1) s'(1) js_add.simps T(1))
  finally have "foldl js_add (Fin 0) (replicate (count - 1) (lit \<beta>) @ [lit (of_int L / 100)]) = Fin T" .
  then have tot: "round2 (foldl js_add (Fin 0) (makeEqualSplits count)) = Fin 100"
    by (simp only: shape rT)
  have "(of_int B :: rat) < 10001" using near qhi Bb by linarith
  then have "(of_int B :: rat) < of_int 10001" by simp
  then have "B < 10001" by (simp only: of_int_less_iff)
  then have B1: "B \<le> 10000" by simp
  have 4: "round2 (js_div (Fin 100) (Fin (of_nat count))) = lit (of_int B / 100)"
    by (simp only: q B(1))
  have 5: "round2 (js_sub (Fin 100)
             (foldl js_add (Fin 0) (replicate count (lit (of_int B / 100))))) =
             lit (of_int D / 100)"
    by (simp only: \<beta>_def[symmetric] bv(1) s(1) diff)
  have 6: "makeEqualSplits count =
             replicate (count - 1) (lit (of_int B / 100)) @ [lit (of_int (B + D) / 100)]"
    using shape by (simp only: \<beta>_def L_def)
  from \<open>0 \<le> B\<close> B1 D_def 4 5 6 tot show ?thesis by blast
qed

lemma equal_split_decimal:
  assumes "1 \<le> count"
  shows "\<exists>B D. 0 \<le> B \<and> B \<le> 10000 \<and> D = 10000 - int count * B \<and>
           round2 (js_div (Fin 100) (Fin (of_nat count))) = lit (of_int B / 100) \<and>
           round2 (js_sub (Fin 100)
             (foldl js_add (Fin 0) (replicate count (lit (of_int B / 100))))) =
             lit (of_int D / 100) \<and>
           makeEqualSplits count =
             replicate (count - 1) (lit (of_int B / 100)) @ [lit (of_int (B + D) / 100)] \<and>
           round2 (foldl js_add (Fin 0) (makeEqualSplits count)) = Fin 100"
proof -
  define N :: rat where "N = of_nat count"
  have c0: "0 < count" using assms by simp
  have "(of_nat 1 :: rat) \<le> of_nat count" using assms by (simp only: of_nat_le_iff)
  then have N1: "1 \<le> N" by (simp add: N_def)
  then have Npos: "0 < N" by linarith
  have qhi: "100 / N \<le> 100" and qlo: "0 \<le> 100 / N" using N1 Npos by (simp_all add: field_simps)
  then have "\<bar>100 / N\<bar> \<le> 100" by linarith
  from fl_err_small[OF this] obtain t where t:
    "fl (100 / N) = Fin t" "\<bar>t - 100 / N\<bar> \<le> 100 / 9007199254740992 + 1 / 1152921504606846976"
    by auto
  have t': "\<bar>t - 100 / of_nat count\<bar> \<le> 1 / 1000000000" using t(2) by (simp add: N_def)
  have q: "js_div (Fin 100) (Fin (of_nat count)) = Fin t"
    using t(1) c0 by (simp add: N_def)
  have tb: "\<bar>t\<bar> \<le> 1000" using t(2) qhi qlo by linarith
  from round2_near[OF tb] obtain B where B:
    "round2 (Fin t) = lit (of_int B / 100)" "\<bar>of_int B - 100 * t\<bar> \<le> 1 / 2 + 1 / 1000000000"
    by blast
  show ?thesis
  proof (cases "count \<le> 20000")
    case True
    with c0 show ?thesis using q t' B by (rule equal_split_small)
  next
    case False
    then have big: "20000 < count" by simp
    then have "20001 \<le> count" by simp
    then have "(of_nat 20001 :: rat) \<le> of_nat count" by (simp only: of_nat_le_iff)
    then have "20001 \<le> N" by (simp add: N_def)
    then have "100 / N \<le> 100 / 20001" using Npos by (simp add: field_simps)
    then have "\<bar>(of_int B :: rat)\<bar> < 1" using B(2) t(2) qlo by linarith
    then have "\<bar>(of_int B :: rat)\<bar> < of_int 1" by simp
    then have "\<bar>B\<bar> < 1" by (simp only: of_int_abs[symmetric] of_int_less_iff)
    then have "B = 0" by simp
    then have "lit (of_int B / 100) = Fin 0" by (simp add: lit_0)
    then have "round2 (js_div (Fin 100) (Fin (of_nat count))) = Fin 0"
      by (simp only: q B(1))
    with c0 big show ?thesis by (rule equal_split_large)
  qed
qed

text \<open>
  Claim C2, as the code fulfils it. For every count of at least one member, each share is
  the binary64 value of a two-decimal percentage \<open>k / 100\<close> with an integer \<open>k\<close>;
  these two-decimal percentages add up to exactly 100.00; and the total as the page
  computes and shows it, \<open>round2\<close> of the binary64 running sum of the shares, is
  exactly 100.
\<close>

theorem makeEqualSplits_sums_to_100:
  assumes "1 \<le> count"
  shows "\<exists>ks. makeEqualSplits count = map (\<lambda>k. lit (of_int k / 100)) ks \<and> sum_list ks = 10000 \<and>
              round2 (foldl js_add (Fin 0) (makeEqualSplits count)) = Fin 100"
proof -
  from equal_split_decimal[OF assms] obtain B D where
    D: "D = 10000 - int count * B" and
    shape: "makeEqualSplits count =
             replicate (count - 1) (lit (of_int B / 100)) @ [lit (of_int (B + D) / 100)]" and
    tot: "round2 (foldl js_add (Fin 0) (makeEqualSplits count)) = Fin 100"
    by blast
  have m: "map (\<lambda>k. lit (of_int k / 100)) (replicate (count - 1) B @ [B + D]) =
             replicate (count - 1) (lit (of_int B / 100)) @ [lit (of_int (B + D) / 100)]"
    by simp
  have "int (count - 1) = int count - 1" using assms by simp
  then have sm: "sum_list (replicate (count - 1) B @ [B + D]) = 10000"
    by (simp add: sum_list_replicate D algebra_simps)
  from shape m sm tot show ?thesis by metis
qed

lemma makeEqualSplits_7:
  "makeEqualSplits 7 =
     [Fin (2011138708597637 / 140737488355328), Fin (2011138708597637 / 140737488355328),
      Fin (2011138708597637 / 140737488355328), Fin (2011138708597637 / 140737488355328),
      Fin (2011138708597637 / 140737488355328), Fin (2011138708597637 / 140737488355328),
      Fin (8027666335787909 / 562949953421312)]"
  by (simp add: split_eval)

text \<open>
  Claim C2 as stated fails for seven members: the shares 14.29 (six times) and 14.26 are
  binary64 values; neither their exact sum nor their running sum in binary64
  (99.99999999999999) is 100.
\<close>

theorem makeEqualSplits_7_sum_not_100:
  "makeEqualSplits 7 =
     map Fin [2011138708597637 / 140737488355328, 2011138708597637 / 140737488355328,
       2011138708597637 / 140737488355328, 2011138708597637 / 140737488355328,
       2011138708597637 / 140737488355328, 2011138708597637 / 140737488355328,
       8027666335787909 / 562949953421312] \<and>
   sum_list [2011138708597637 / 140737488355328, 2011138708597637 / 140737488355328,
       2011138708597637 / 140737488355328, 2011138708597637 / 140737488355328,
       2011138708597637 / 140737488355328, 2011138708597637 / 140737488355328,
       8027666335787909 / 562949953421312 :: rat] \<noteq> 100 \<and>
   foldl js_add (Fin 0) (makeEqualSplits 7) = Fin (7036874417766399 / 70368744177664) \<and>
   foldl js_add (Fin 0) (makeEqualSplits 7) \<noteq> Fin 100"
  by (simp add: makeEqualSplits_7 js_eval)

theorem makeEqualSplits_sums_to_100_witness:
  "(1::nat) \<le> 7 \<and>
   makeEqualSplits 7 =
     map (\<lambda>k. lit (of_int k / 100)) [1429, 1429, 1429, 1429, 1429, 1429, 1426] \<and>
   sum_list [1429, 1429, 1429, 1429, 1429, 1429, 1426] = (10000::int) \<and>
   round2 (foldl js_add (Fin 0) (makeEqualSplits 7)) = Fin 100"
proof -
  have h: "(1::nat) \<le> 7" by simp
  from makeEqualSplits_sums_to_100[OF h]
  have t: "round2 (foldl js_add (Fin 0) (makeEqualSplits 7)) = Fin 100" by blast
  have m: "makeEqualSplits 7 =
     map (\<lambda>k. lit (of_int k / 100)) [1429, 1429, 1429, 1429, 1429, 1429, 1426]"
    by (simp add: makeEqualSplits_7 lit_def js_eval)
  have s: "sum_list [1429, 1429, 1429, 1429, 1429, 1429, 1426] = (10000::int)" by simp
  show ?thesis by (rule conjI[OF h conjI[OF m conjI[OF s t]]])
qed

section \<open>The share of the last member\<close>

text \<open>
  Claim C6, as the code fulfils it. For every count of at least one member there are
  integers \<open>B\<close> and \<open>D\<close> of hundredths of a percent, with \<open>B\<close> between 0 and 10000, such
  that \<open>base = round2 (100 / count)\<close> is the binary64 value of \<open>B / 100\<close>; the remainder
  \<open>round2 (100 - sum of the bases)\<close>, the sum being the running sum in binary64, is the
  binary64 value of \<open>D / 100\<close>, where \<open>D = 10000 - count * B\<close> is exactly what the bases
  leave of 100.00; every member but the last gets \<open>base\<close>; and the last member gets the
  binary64 value of the two-decimal sum \<open>(B + D) / 100\<close> of base and remainder. Three
  members get 33.33, 33.33 and 33.34. Without cut records the page gives the shares to
  the members in their order, the last share to the last member.
\<close>

theorem makeEqualSplits_last_gets_base_plus_remainder:
  "(1 \<le> count \<longrightarrow>
      (\<exists>B D. 0 \<le> B \<and> B \<le> 10000 \<and> D = 10000 - int count * B \<and>
         round2 (js_div (Fin 100) (Fin (of_nat count))) = lit (of_int B / 100) \<and>
         round2 (js_sub (Fin 100)
           (foldl js_add (Fin 0) (replicate count (lit (of_int B / 100))))) =
           lit (of_int D / 100) \<and>
         makeEqualSplits count =
           replicate (count - 1) (lit (of_int B / 100)) @ [lit (of_int (B + D) / 100)])) \<and>
   makeEqualSplits 3 = [lit (3333 / 100), lit (3333 / 100), lit (3334 / 100)] \<and>
   map cutPercent (nextRows members emails []) = makeEqualSplits (length members)"
proof (intro conjI impI)
  assume "1 \<le> count"
  from equal_split_decimal[OF this]
  show "\<exists>B D. 0 \<le> B \<and> B \<le> 10000 \<and> D = 10000 - int count * B \<and>
         round2 (js_div (Fin 100) (Fin (of_nat count))) = lit (of_int B / 100) \<and>
         round2 (js_sub (Fin 100)
           (foldl js_add (Fin 0) (replicate count (lit (of_int B / 100))))) =
           lit (of_int D / 100) \<and>
         makeEqualSplits count =
           replicate (count - 1) (lit (of_int B / 100)) @ [lit (of_int (B + D) / 100)]"
    by blast
next
  show "makeEqualSplits 3 = [lit (3333 / 100), lit (3333 / 100), lit (3334 / 100)]"
    by (simp add: split_eval)
next
  show "map cutPercent (nextRows members emails []) = makeEqualSplits (length members)"
    by (rule nextRows_no_cuts)
qed

text \<open>
  Claim C6 as stated fails for three members: the base is 33.33 and the remainder 0.01,
  but their sum in binary64 is 33.339999999999996, which is not the share 33.34 of the
  last member. \<^verbatim>\<open>makeEqualSplits\<close> rounds the sum once more with \<open>round2\<close>.
\<close>

theorem makeEqualSplits_3_last_not_binary64_sum:
  "round2 (js_div (Fin 100) (Fin (of_nat (3::nat)))) = lit (3333 / 100) \<and>
   round2 (js_sub (Fin 100) (foldl js_add (Fin 0) (replicate 3 (lit (3333 / 100))))) =
     lit (1 / 100) \<and>
   js_add (lit (3333 / 100)) (lit (1 / 100)) = Fin (4692187861766635 / 140737488355328) \<and>
   last (makeEqualSplits 3) = Fin (1173046965441659 / 35184372088832) \<and>
   last (makeEqualSplits 3) \<noteq> js_add (lit (3333 / 100)) (lit (1 / 100))"
  by (simp add: split_eval)

theorem makeEqualSplits_last_gets_base_plus_remainder_witness:
  "(1::nat) \<le> 7 \<and>
   round2 (js_div (Fin 100) (Fin (of_nat (7::nat)))) = lit (1429 / 100) \<and>
   round2 (js_sub (Fin 100) (foldl js_add (Fin 0) (replicate 7 (lit (1429 / 100))))) =
     lit (- 3 / 100) \<and>
   makeEqualSplits 7 =
     [lit (1429 / 100), lit (1429 / 100), lit (1429 / 100), lit (1429 / 100), lit (1429 / 100),
      lit (1429 / 100), lit (1426 / 100)]"
proof -
  have h: "(1::nat) \<le> 7" by simp
  from makeEqualSplits_last_gets_base_plus_remainder[of 7] h obtain B D where
    B: "0 \<le> B" "B \<le> 10000" and D: "D = 10000 - int 7 * B" and
    base: "round2 (js_div (Fin 100) (Fin (of_nat (7::nat)))) = lit (of_int B / 100)" and
    rem: "round2 (js_sub (Fin 100)
           (foldl js_add (Fin 0) (replicate 7 (lit (of_int B / 100))))) = lit (of_int D / 100)" and
    shape: "makeEqualSplits 7 =
           replicate (7 - 1) (lit (of_int B / 100)) @ [lit (of_int (B + D) / 100)]"
    by blast
  define r :: rat where "r = of_int B"
  have "(of_int 0 :: rat) \<le> of_int B" "(of_int B :: rat) \<le> of_int 10000"
    using B by (simp_all only: of_int_le_iff)
  then have r: "0 \<le> r" "r \<le> 10000" by (simp_all add: r_def)
  then have "\<bar>r / 100\<bar> \<le> 100" by simp
  from lit_err[OF this] obtain v where v:
    "lit (r / 100) = Fin v" "\<bar>v - r / 100\<bar> \<le> 100 / 9007199254740992 + 1 / 1152921504606846976"
    by auto
  have "round2 (js_div (Fin 100) (Fin (of_nat (7::nat)))) =
          Fin (2011138708597637 / 140737488355328)"
    by (simp add: split_eval)
  then have "v = 2011138708597637 / 140737488355328"
    using base v(1) by (simp add: r_def)
  then have "\<bar>r - 1429\<bar> < 1" using v(2) by linarith
  then have "\<bar>(of_int (B - 1429) :: rat)\<bar> < of_int 1" by (simp add: r_def)
  then have "\<bar>B - 1429\<bar> < 1" by (simp only: of_int_abs[symmetric] of_int_less_iff)
  then have B': "B = 1429" by simp
  then have D': "D = - 3" using D by simp
  have 1: "round2 (js_div (Fin 100) (Fin (of_nat (7::nat)))) = lit (1429 / 100)"
    using base by (simp add: B')
  have 2: "round2 (js_sub (Fin 100) (foldl js_add (Fin 0) (replicate 7 (lit (1429 / 100))))) =
     lit (- 3 / 100)"
    using rem by (simp add: B' D')
  have 3: "makeEqualSplits 7 =
     [lit (1429 / 100), lit (1429 / 100), lit (1429 / 100), lit (1429 / 100), lit (1429 / 100),
      lit (1429 / 100), lit (1426 / 100)]"
    using shape by (simp add: B' D' eval_nat_numeral)
  show ?thesis by (rule conjI[OF h conjI[OF 1 conjI[OF 2 3]]])
qed

end
